theory Spec2Isabelle
  imports Complex_Main "HOL-Library.Sublist"
begin

section \<open>Python values and strings\<close>

text \<open>
  Python strings are modelled as \<open>string\<close> (lists of 8-bit characters). The model covers
  ASCII text: \<open>str.lower\<close> maps \<open>A\<close>..\<open>Z\<close> to \<open>a\<close>..\<open>z\<close> and leaves every other character
  alone, and the whitespace of \<open>str.split\<close> and \<open>str.strip\<close> is the ASCII whitespace of
  Python's \<open>str.isspace\<close> (space, TAB, LF, VT, FF, CR and the separators 0x1C..0x1F).
\<close>

definition upper_letters :: string where
  "upper_letters = ''ABCDEFGHIJKLMNOPQRSTUVWXYZ''"

definition lower_letters :: string where
  "lower_letters = ''abcdefghijklmnopqrstuvwxyz''"

definition lower_char :: "char \<Rightarrow> char" where
  "lower_char c = (case map_of (zip upper_letters lower_letters) c of
                     Some d \<Rightarrow> d
                   | None \<Rightarrow> c)"

definition lower :: "string \<Rightarrow> string" where
  "lower s = map lower_char s"

definition whitespace :: "char list" where
  "whitespace = [CHR '' '', CHR 0x09, CHR 0x0A, CHR 0x0B, CHR 0x0C, CHR 0x0D,
                 CHR 0x1C, CHR 0x1D, CHR 0x1E, CHR 0x1F]"

definition is_space :: "char \<Rightarrow> bool" where
  "is_space c = (c \<in> set whitespace)"

text \<open>\<open>s.strip()\<close>: leading and trailing whitespace removed.\<close>

definition strip :: "string \<Rightarrow> string" where
  "strip s = rev (dropWhile is_space (rev (dropWhile is_space s)))"

text \<open>
  \<open>s.split()\<close>: the maximal runs of non-whitespace characters, left to right. \<open>cur\<close> is
  the token being read.
\<close>

fun split_acc :: "string \<Rightarrow> string \<Rightarrow> string list" where
  "split_acc cur [] = (if cur = [] then [] else [cur])"
| "split_acc cur (c # cs) =
     (if is_space c
      then (if cur = [] then split_acc [] cs else cur # split_acc [] cs)
      else split_acc (cur @ [c]) cs)"

definition split :: "string \<Rightarrow> string list" where
  "split s = split_acc [] s"

text \<open>\<open>sub in s\<close> on strings: \<open>sub\<close> occurs in \<open>s\<close> as a contiguous substring.\<close>

fun starts_with :: "string \<Rightarrow> string \<Rightarrow> bool" where
  "starts_with [] s = True"
| "starts_with (c # cs) [] = False"
| "starts_with (c # cs) (d # ds) = (c = d \<and> starts_with cs ds)"

fun str_in :: "string \<Rightarrow> string \<Rightarrow> bool" where
  "str_in sub [] = (sub = [])"
| "str_in sub (c # cs) = (starts_with sub (c # cs) \<or> str_in sub cs)"

text \<open>\<open>any(keyword in text for keyword in keywords)\<close>.\<close>

fun any_keyword_in :: "string list \<Rightarrow> string \<Rightarrow> bool" where
  "any_keyword_in [] text = False"
| "any_keyword_in (k # ks) text = (str_in k text \<or> any_keyword_in ks text)"

text \<open>
  The values a result dictionary holds. A dictionary with string keys is an association
  list in insertion order; \<open>d[k]\<close> and \<open>d.get(k)\<close> read it with \<open>map_of\<close>.
\<close>

datatype pyval =
    PyNone
  | PyBool bool
  | PyInt int
  | PyStr string
  | PyList "pyval list"
  | PyDict "(string \<times> pyval) list"

type_synonym pydict = "(string \<times> pyval) list"

section \<open>ai_agent_core.py\<close>

datatype CommandType = LAUNCH_APP | SYSTEM_CONTROL | AUTOMATION | QUERY | INTEGRATION

fun CommandType_value :: "CommandType \<Rightarrow> string" where
  "CommandType_value LAUNCH_APP = ''launch_app''"
| "CommandType_value SYSTEM_CONTROL = ''system_control''"
| "CommandType_value AUTOMATION = ''automation''"
| "CommandType_value QUERY = ''query''"
| "CommandType_value INTEGRATION = ''integration''"

datatype ProcessingMode = ON_DEVICE | CLOUD | HYBRID

text \<open>
  The configuration dictionary, by its recognised keys; \<open>None\<close> is a key that is absent
  (\<open>config.get(key)\<close> is then \<open>None\<close>, or the default given).
\<close>

record config =
  wake_word :: "string option"
  language :: "string option"
  processing_mode :: "string option"
  privacy_mode :: "bool option"
  learning_enabled :: "bool option"
  max_history :: "int option"

record history_entry =
  command :: string
  intent :: string
  result :: pydict
  timestamp :: string

record time_patterns =
  morning_commands :: "string list"
  afternoon_commands :: "string list"
  evening_commands :: "string list"

text \<open>The patterns dictionary; \<open>frequent_commands\<close> is a list of (command, count) pairs.\<close>

record patterns =
  frequent_commands :: "(string \<times> nat) list"
  time_patterns :: time_patterns

text \<open>
  The agent's fields. \<open>learned_patterns = None\<close> is the empty dictionary \<open>{}\<close>;
  \<open>active_integrations\<close> is only ever the empty dictionary.
\<close>

record agent =
  config :: config
  command_history :: "history_entry list"
  learned_patterns :: "patterns option"
  active_integrations :: pydict
  agent_processing_mode :: ProcessingMode

definition load_default_config :: config where
  "load_default_config =
     \<lparr> wake_word = Some ''Hey Assistant'', language = Some ''en'',
       processing_mode = Some ''hybrid'', privacy_mode = Some False,
       learning_enabled = Some True, max_history = Some 1000 \<rparr>"

definition empty_config :: config where
  "empty_config =
     \<lparr> wake_word = None, language = None, processing_mode = None, privacy_mode = None,
       learning_enabled = None, max_history = None \<rparr>"

text \<open>\<open>config or self._load_default_config()\<close>: no argument and \<open>{}\<close> both give the default.\<close>

definition init_agent :: "config option \<Rightarrow> agent" where
  "init_agent cfg =
     \<lparr> config = (case cfg of
                   None \<Rightarrow> load_default_config
                 | Some c \<Rightarrow> if c = empty_config then load_default_config else c),
       command_history = [],
       learned_patterns = None,
       active_integrations = [],
       agent_processing_mode = HYBRID \<rparr>"

definition automation_keywords :: "string list" where
  "automation_keywords = [''when'', ''every'', ''schedule'', ''automate'']"

definition launch_keywords :: "string list" where
  "launch_keywords = [''open'', ''launch'', ''start'']"

definition control_keywords :: "string list" where
  "control_keywords = [''set'', ''enable'', ''disable'', ''turn'']"

definition query_keywords :: "string list" where
  "query_keywords = [''what'', ''where'', ''how'', ''tell'', ''show'']"

definition analyze_intent :: "string \<Rightarrow> CommandType" where
  "analyze_intent cmd =
     (let command_lower = lower cmd in
      if any_keyword_in automation_keywords command_lower then AUTOMATION
      else if any_keyword_in launch_keywords command_lower then LAUNCH_APP
      else if any_keyword_in control_keywords command_lower then SYSTEM_CONTROL
      else if any_keyword_in query_keywords command_lower then QUERY
      else INTEGRATION)"

record entities =
  app_name :: "string option"
  action :: "string option"
  parameters :: pydict

text \<open>
  The loop of \<open>_extract_entities\<close>: \<open>i\<close> is the index of the first word of \<open>rest\<close> in
  \<open>words\<close>. A verb that is the last word sets nothing and the scan goes on.
\<close>

fun extract_loop :: "string list \<Rightarrow> nat \<Rightarrow> string list \<Rightarrow> entities \<Rightarrow> entities" where
  "extract_loop words i [] e = e"
| "extract_loop words i (word # rest) e =
     (if lower word \<in> set launch_keywords
      then (if i + 1 < length words
            then e\<lparr> app_name := Some (words ! (i + 1)), action := Some (lower word) \<rparr>
            else extract_loop words (i + 1) rest e)
      else extract_loop words (i + 1) rest e)"

definition extract_entities :: "string \<Rightarrow> entities" where
  "extract_entities cmd =
     (let words = split cmd in
      extract_loop words 0 words \<lparr> app_name = None, action = None, parameters = [] \<rparr>)"

text \<open>\<open>not app_name\<close> holds for \<open>None\<close> and for the empty string.\<close>

definition launch_app :: "string option \<Rightarrow> string \<Rightarrow> pydict" where
  "launch_app name now =
     (case name of
        None \<Rightarrow> [(''success'', PyBool False), (''error'', PyStr ''No app name provided'')]
      | Some n \<Rightarrow>
          if n = [] then [(''success'', PyBool False), (''error'', PyStr ''No app name provided'')]
          else [(''success'', PyBool True), (''action'', PyStr ''launch_app''),
                (''app_name'', PyStr n),
                (''message'', PyStr (''Successfully launched '' @ n)),
                (''timestamp'', PyStr now)])"

definition system_control :: "entities \<Rightarrow> string \<Rightarrow> pydict" where
  "system_control e now =
     [(''success'', PyBool True), (''action'', PyStr ''system_control''),
      (''message'', PyStr ''System control executed''), (''timestamp'', PyStr now)]"

definition create_automation :: "entities \<Rightarrow> string \<Rightarrow> pydict" where
  "create_automation e now =
     [(''success'', PyBool True), (''action'', PyStr ''create_automation''),
      (''message'', PyStr ''Automation rule created''), (''timestamp'', PyStr now)]"

definition process_query :: "entities \<Rightarrow> string \<Rightarrow> pydict" where
  "process_query e now =
     [(''success'', PyBool True), (''action'', PyStr ''process_query''),
      (''message'', PyStr ''Query processed''), (''timestamp'', PyStr now)]"

definition handle_integration :: "entities \<Rightarrow> string \<Rightarrow> pydict" where
  "handle_integration e now =
     [(''success'', PyBool True), (''action'', PyStr ''integration''),
      (''message'', PyStr ''Integration handled''), (''timestamp'', PyStr now)]"

text \<open>The context argument is passed along and never read.\<close>

fun execute_command :: "CommandType \<Rightarrow> entities \<Rightarrow> pydict option \<Rightarrow> string \<Rightarrow> pydict" where
  "execute_command LAUNCH_APP e ctx now = launch_app (app_name e) now"
| "execute_command SYSTEM_CONTROL e ctx now = system_control e now"
| "execute_command AUTOMATION e ctx now = create_automation e now"
| "execute_command QUERY e ctx now = process_query e now"
| "execute_command INTEGRATION e ctx now = handle_integration e now"

text \<open>
  \<open>xs[i:]\<close> for any integer \<open>i\<close>: a negative \<open>i\<close> counts from the end, and both ends are
  clamped to the list.
\<close>

definition slice_from :: "'a list \<Rightarrow> int \<Rightarrow> 'a list" where
  "slice_from xs i =
     (if i < 0 then drop (nat (max (int (length xs) + i) 0)) xs
      else drop (nat i) xs)"

definition store_command_history ::
  "agent \<Rightarrow> string \<Rightarrow> CommandType \<Rightarrow> pydict \<Rightarrow> string \<Rightarrow> agent" where
  "store_command_history a cmd i res now =
     (let history_entry = \<lparr> command = cmd, intent = CommandType_value i, result = res,
                             timestamp = now \<rparr>;
          history = command_history a @ [history_entry];
          max_hist = (case max_history (config a) of None \<Rightarrow> 1000 | Some m \<Rightarrow> m)
      in if int (length history) > max_hist
         then a\<lparr> command_history := slice_from history (- max_hist) \<rparr>
         else a\<lparr> command_history := history \<rparr>)"

text \<open>
  \<open>process_command\<close> reads the clock twice: \<open>t_exec\<close> in the handler and \<open>t_store\<close> in
  the history entry. It returns the handler's result and the agent after the call.
\<close>

definition process_command ::
  "agent \<Rightarrow> string \<Rightarrow> pydict option \<Rightarrow> string \<Rightarrow> string \<Rightarrow> pydict \<times> agent" where
  "process_command a cmd ctx t_exec t_store =
     (let i = analyze_intent cmd;
          e = extract_entities cmd;
          res = execute_command i e ctx t_exec
      in (res,
          if learning_enabled (config a) = Some True
          then store_command_history a cmd i res t_store
          else a))"

text \<open>\<open>d[k] = v\<close>: an existing key keeps its place, a new key goes last.\<close>

fun dict_set :: "('k \<times> 'v) list \<Rightarrow> 'k \<Rightarrow> 'v \<Rightarrow> ('k \<times> 'v) list" where
  "dict_set [] k v = [(k, v)]"
| "dict_set ((k', v') # d) k v = (if k' = k then (k, v) # d else (k', v') # dict_set d k v)"

text \<open>The counting loop of \<open>learn_from_patterns\<close>.\<close>

fun command_frequency_loop :: "(string \<times> nat) list \<Rightarrow> history_entry list \<Rightarrow> (string \<times> nat) list" where
  "command_frequency_loop freq [] = freq"
| "command_frequency_loop freq (entry # rest) =
     (let cmd = command entry in
      command_frequency_loop
        (dict_set freq cmd ((case map_of freq cmd of None \<Rightarrow> 0 | Some n \<Rightarrow> n) + 1)) rest)"

text \<open>
  \<open>sorted(xs, key=key, reverse=True)\<close>: a stable sort by descending key (elements with
  equal keys keep their order in \<open>xs\<close>).
\<close>

definition sorted_reverse :: "('a \<Rightarrow> nat) \<Rightarrow> 'a list \<Rightarrow> 'a list" where
  "sorted_reverse key xs = sort_key (\<lambda>x. - int (key x)) xs"

text \<open>The placeholder of the source: always the three empty buckets.\<close>

definition analyze_time_patterns :: "agent \<Rightarrow> time_patterns" where
  "analyze_time_patterns a =
     \<lparr> morning_commands = [], afternoon_commands = [], evening_commands = [] \<rparr>"

text \<open>
  \<open>learn_from_patterns\<close> returns \<open>{}\<close> (here \<open>None\<close>) on an empty history and leaves the
  agent alone; otherwise it stores and returns the patterns.
\<close>

definition learn_from_patterns :: "agent \<Rightarrow> patterns option \<times> agent" where
  "learn_from_patterns a =
     (if command_history a = [] then (None, a)
      else
        let command_frequency = command_frequency_loop [] (command_history a);
            tp = analyze_time_patterns a;
            lp = \<lparr> frequent_commands = take 10 (sorted_reverse snd command_frequency),
                   time_patterns = tp \<rparr>
        in (Some lp, a\<lparr> learned_patterns := Some lp \<rparr>))"

text \<open>
  \<open>export_data\<close> writes one document to the file; \<open>io_ok\<close> says whether opening and
  writing the file succeed (any exception is caught and gives \<open>False\<close>).
\<close>

record export_document =
  export_config :: config
  export_learned_patterns :: "patterns option"
  history_count :: nat
  export_timestamp :: string

definition export_data :: "agent \<Rightarrow> string \<Rightarrow> string \<Rightarrow> bool \<Rightarrow> bool \<times> export_document option" where
  "export_data a filepath now io_ok =
     (if io_ok
      then (True, Some \<lparr> export_config = config a,
                         export_learned_patterns = learned_patterns a,
                         history_count = length (command_history a),
                         export_timestamp = now \<rparr>)
      else (False, None))"

section \<open>app_launcher.py\<close>

datatype AppCategory =
    SOCIAL | PRODUCTIVITY | ENTERTAINMENT | COMMUNICATION | UTILITY
  | PHOTOGRAPHY | SHOPPING | HEALTH | NAVIGATION | OTHER

fun AppCategory_value :: "AppCategory \<Rightarrow> string" where
  "AppCategory_value SOCIAL = ''social''"
| "AppCategory_value PRODUCTIVITY = ''productivity''"
| "AppCategory_value ENTERTAINMENT = ''entertainment''"
| "AppCategory_value COMMUNICATION = ''communication''"
| "AppCategory_value UTILITY = ''utility''"
| "AppCategory_value PHOTOGRAPHY = ''photography''"
| "AppCategory_value SHOPPING = ''shopping''"
| "AppCategory_value HEALTH = ''health''"
| "AppCategory_value NAVIGATION = ''navigation''"
| "AppCategory_value OTHER = ''other''"

record app_info =
  name :: string
  package :: string
  category :: AppCategory
  icon :: string

record usage_stats =
  launch_count :: nat
  last_used :: "string option"
  total_time :: nat

text \<open>
  The launcher's fields. The two dictionaries are association lists in insertion order
  (the order a Python \<open>dict\<close> iterates in), with one entry per key.
\<close>

record launcher =
  installed_apps :: "(string \<times> app_info) list"
  app_usage_stats :: "(string \<times> usage_stats) list"
  recent_apps :: "string list"
  favorites :: "string list"

definition initialize_app_database :: "(string \<times> app_info) list" where
  "initialize_app_database =
     [(''gmail'', \<lparr> name = ''Gmail'', package = ''com.google.android.gm'',
                    category = COMMUNICATION, icon = ''gmail_icon'' \<rparr>),
      (''chrome'', \<lparr> name = ''Chrome'', package = ''com.android.chrome'',
                     category = PRODUCTIVITY, icon = ''chrome_icon'' \<rparr>),
      (''camera'', \<lparr> name = ''Camera'', package = ''com.android.camera'',
                     category = PHOTOGRAPHY, icon = ''camera_icon'' \<rparr>),
      (''spotify'', \<lparr> name = ''Spotify'', package = ''com.spotify.music'',
                      category = ENTERTAINMENT, icon = ''spotify_icon'' \<rparr>),
      (''maps'', \<lparr> name = ''Google Maps'', package = ''com.google.android.apps.maps'',
                   category = NAVIGATION, icon = ''maps_icon'' \<rparr>),
      (''whatsapp'', \<lparr> name = ''WhatsApp'', package = ''com.whatsapp'',
                       category = COMMUNICATION, icon = ''whatsapp_icon'' \<rparr>),
      (''instagram'', \<lparr> name = ''Instagram'', package = ''com.instagram.android'',
                        category = SOCIAL, icon = ''instagram_icon'' \<rparr>),
      (''slack'', \<lparr> name = ''Slack'', package = ''com.slack'',
                    category = PRODUCTIVITY, icon = ''slack_icon'' \<rparr>)]"

definition init_launcher :: launcher where
  "init_launcher =
     \<lparr> installed_apps = initialize_app_database, app_usage_stats = [],
       recent_apps = [], favorites = [] \<rparr>"

text \<open>The two loops of \<open>_find_app\<close>, over the catalogue in iteration order.\<close>

fun find_by_display_name :: "(string \<times> app_info) list \<Rightarrow> string \<Rightarrow> app_info option" where
  "find_by_display_name [] app_identifier = None"
| "find_by_display_name ((key, app) # rest) app_identifier =
     (if lower (name app) = app_identifier then Some app
      else find_by_display_name rest app_identifier)"

fun find_partial :: "(string \<times> app_info) list \<Rightarrow> string \<Rightarrow> app_info option" where
  "find_partial [] app_identifier = None"
| "find_partial ((key, app) # rest) app_identifier =
     (if str_in app_identifier (lower (name app)) \<or> str_in app_identifier key then Some app
      else find_partial rest app_identifier)"

definition find_app :: "launcher \<Rightarrow> string \<Rightarrow> app_info option" where
  "find_app s app_identifier =
     (case map_of (installed_apps s) app_identifier of
        Some app \<Rightarrow> Some app
      | None \<Rightarrow>
          (case find_by_display_name (installed_apps s) app_identifier of
             Some app \<Rightarrow> Some app
           | None \<Rightarrow> find_partial (installed_apps s) app_identifier))"

text \<open>
  \<open>_calculate_similarity\<close>: the quotient of two set sizes. The source divides in floating
  point; the model keeps the exact quotient. For the only use made of it, the test
  \<open>> 0.5\<close>, the two agree: the quotient of two integers below \<open>2^52\<close> is at least
  \<open>2^-53\<close> away from one half unless it is one half, and division rounds monotonically.
\<close>

definition calculate_similarity :: "string \<Rightarrow> string \<Rightarrow> rat" where
  "calculate_similarity str1 str2 =
     (let set1 = set (lower str1);
          set2 = set (lower str2);
          intersection_size = card (set1 \<inter> set2);
          union_size = card (set1 \<union> set2)
      in if union_size > 0 then of_nat intersection_size / of_nat union_size else 0)"

fun similar_apps_loop :: "(string \<times> app_info) list \<Rightarrow> string \<Rightarrow> string list \<Rightarrow> string list" where
  "similar_apps_loop [] app_identifier suggestions = suggestions"
| "similar_apps_loop ((key, app) # rest) app_identifier suggestions =
     similar_apps_loop rest app_identifier
       (if str_in app_identifier key \<or> str_in app_identifier (lower (name app))
           \<or> calculate_similarity app_identifier key > 1 / 2
        then suggestions @ [name app] else suggestions)"

definition get_similar_apps :: "launcher \<Rightarrow> string \<Rightarrow> string list" where
  "get_similar_apps s app_identifier =
     take 5 (similar_apps_loop (installed_apps s) app_identifier [])"

text \<open>
  \<open>_update_usage_stats\<close>: the record is created if the key has none, then read back and
  updated in place (the read cannot miss).
\<close>

definition update_usage_stats :: "launcher \<Rightarrow> string \<Rightarrow> string \<Rightarrow> launcher" where
  "update_usage_stats s app_key now =
     (let stats1 = (case map_of (app_usage_stats s) app_key of
                      None \<Rightarrow> dict_set (app_usage_stats s) app_key
                                \<lparr> launch_count = 0, last_used = None, total_time = 0 \<rparr>
                    | Some st \<Rightarrow> app_usage_stats s)
      in case map_of stats1 app_key of
           None \<Rightarrow> s
         | Some stats \<Rightarrow>
             s\<lparr> app_usage_stats :=
                  dict_set stats1 app_key
                    (stats\<lparr> launch_count := launch_count stats + 1, last_used := Some now \<rparr>) \<rparr>)"

definition add_to_recent :: "launcher \<Rightarrow> string \<Rightarrow> launcher" where
  "add_to_recent s app_key =
     (let removed = (if app_key \<in> set (recent_apps s) then remove1 app_key (recent_apps s)
                     else recent_apps s)
      in s\<lparr> recent_apps := take 20 (app_key # removed) \<rparr>)"

text \<open>
  Launch parameters are a dictionary together with its printed form \<open>str(parameters)\<close>,
  which the deep link embeds.
\<close>

type_synonym launch_parameters = "pydict \<times> string"

definition create_deep_link :: "app_info \<Rightarrow> launch_parameters \<Rightarrow> string" where
  "create_deep_link app params = package app @ ''://action?'' @ snd params"

text \<open>
  \<open>launch\<close> reads the clock in \<open>_update_usage_stats\<close> (\<open>t_stats\<close>) and for the result
  (\<open>t_result\<close>). It returns the result dictionary and the launcher after the call.
\<close>

definition launch ::
  "launcher \<Rightarrow> string \<Rightarrow> launch_parameters option \<Rightarrow> string \<Rightarrow> string \<Rightarrow> pydict \<times> launcher" where
  "launch s app_identifier params t_stats t_result =
     (let app_key = strip (lower app_identifier) in
      case find_app s app_key of
        None \<Rightarrow>
          ([(''success'', PyBool False),
            (''error'', PyStr (''App '' @ [CHR 0x27] @ app_identifier @ [CHR 0x27] @ '' not found'')),
            (''suggestions'', PyList (map PyStr (get_similar_apps s app_key)))], s)
      | Some app \<Rightarrow>
          (let s1 = update_usage_stats s app_key t_stats;
               s2 = add_to_recent s1 app_key;
               res = [(''success'', PyBool True),
                      (''app_name'', PyStr (name app)),
                      (''package'', PyStr (package app)),
                      (''category'', PyStr (AppCategory_value (category app))),
                      (''timestamp'', PyStr t_result),
                      (''message'', PyStr (''Successfully launched '' @ name app))]
           in (case params of
                 None \<Rightarrow> res
               | Some p \<Rightarrow> if fst p = [] then res
                           else res @ [(''deep_link'', PyStr (create_deep_link app p))],
               s2)))"

text \<open>The projections skip every key that is not a catalogue key.\<close>

fun app_entries :: "(string \<times> app_info) list \<Rightarrow> string list \<Rightarrow> pydict list" where
  "app_entries apps [] = []"
| "app_entries apps (app_key # rest) =
     (case map_of apps app_key of
        None \<Rightarrow> app_entries apps rest
      | Some app \<Rightarrow>
          [(''key'', PyStr app_key), (''name'', PyStr (name app)),
           (''category'', PyStr (AppCategory_value (category app)))] # app_entries apps rest)"

definition get_recent_apps :: "launcher \<Rightarrow> pydict list" where
  "get_recent_apps s = app_entries (installed_apps s) (recent_apps s)"

definition get_favorites :: "launcher \<Rightarrow> pydict list" where
  "get_favorites s = app_entries (installed_apps s) (favorites s)"

datatype py_error = IndexError

text \<open>
  \<open>switch_to_recent\<close>: an index at or past the end is refused; a negative index counts from
  the end of the list, as Python's indexing does, and raises \<open>IndexError\<close> before the
  start.
\<close>

definition switch_to_recent ::
  "launcher \<Rightarrow> int \<Rightarrow> string \<Rightarrow> string \<Rightarrow> py_error + pydict \<times> launcher" where
  "switch_to_recent s index t_stats t_result =
     (let n = int (length (recent_apps s)) in
      if index \<ge> n
      then Inr ([(''success'', PyBool False), (''error'', PyStr ''Invalid recent app index'')], s)
      else let j = (if index < 0 then index + n else index) in
           if j < 0 then Inl IndexError
           else Inr (launch s (recent_apps s ! nat j) None t_stats t_result))"

definition add_to_favorites :: "launcher \<Rightarrow> string \<Rightarrow> bool \<times> launcher" where
  "add_to_favorites s app_identifier =
     (let app_key = strip (lower app_identifier) in
      case find_app s app_key of
        None \<Rightarrow> (False, s)
      | Some app \<Rightarrow>
          if app_key \<notin> set (favorites s)
          then (True, s\<lparr> favorites := favorites s @ [app_key] \<rparr>)
          else (False, s))"

section \<open>Specification-level notions\<close>

text \<open>
  The classifier as the specification words it: the first keyword set with a member that
  occurs in the lower-cased text decides.
\<close>

definition mentions :: "string set \<Rightarrow> string \<Rightarrow> bool" where
  "mentions K text = (\<exists>k \<in> K. \<exists>ps ss. lower text = ps @ k @ ss)"

definition Classify_spec :: "string \<Rightarrow> CommandType" where
  "Classify_spec text =
     (if mentions {''when'', ''every'', ''schedule'', ''automate''} text then AUTOMATION
      else if mentions {''open'', ''launch'', ''start''} text then LAUNCH_APP
      else if mentions {''set'', ''enable'', ''disable'', ''turn''} text then SYSTEM_CONTROL
      else if mentions {''what'', ''where'', ''how'', ''tell'', ''show''} text then QUERY
      else INTEGRATION)"

text \<open>
  Entity extraction as the specification words it, over the tokens of the text: the
  extracted app name is the token right after the first token that is a launch verb, and
  there is none when no token is a launch verb or the first such token is the last one.
\<close>

definition is_launch_verb :: "string \<Rightarrow> bool" where
  "is_launch_verb w = (lower w \<in> {''open'', ''launch'', ''start''})"

definition follows_first_verb :: "string list \<Rightarrow> string \<Rightarrow> bool" where
  "follows_first_verb ws n =
     (\<exists>pre v post. ws = pre @ v # n # post \<and> is_launch_verb v \<and>
        (\<forall>w \<in> set pre. \<not> is_launch_verb w))"

definition no_followed_verb :: "string list \<Rightarrow> bool" where
  "no_followed_verb ws =
     ((\<forall>w \<in> set ws. \<not> is_launch_verb w) \<or>
      (\<exists>pre v. ws = pre @ [v] \<and> is_launch_verb v \<and>
         (\<forall>w \<in> set pre. \<not> is_launch_verb w)))"

definition missing_app_name :: pydict where
  "missing_app_name = [(''success'', PyBool False), (''error'', PyStr ''No app name provided'')]"

text \<open>
  A session: \<open>process_command\<close> called on each input in turn, each call with its command,
  its context and its two clock readings. \<open>entry_of\<close> is the history entry a call makes.
\<close>

type_synonym call = "string \<times> pydict option \<times> string \<times> string"

fun process_commands :: "agent \<Rightarrow> call list \<Rightarrow> agent" where
  "process_commands a [] = a"
| "process_commands a ((cmd, ctx, t_exec, t_store) # calls) =
     process_commands (snd (process_command a cmd ctx t_exec t_store)) calls"

definition entry_of :: "call \<Rightarrow> history_entry" where
  "entry_of c = (case c of (cmd, ctx, t_exec, t_store) \<Rightarrow>
     \<lparr> command = cmd, intent = CommandType_value (analyze_intent cmd),
       result = execute_command (analyze_intent cmd) (extract_entities cmd) ctx t_exec,
       timestamp = t_store \<rparr>)"

text \<open>The position of the first occurrence of \<open>x\<close> in \<open>xs\<close>.\<close>

definition first_index :: "'a list \<Rightarrow> 'a \<Rightarrow> nat" where
  "first_index xs x = length (takeWhile (\<lambda>y. y \<noteq> x) xs)"

text \<open>
  A ranking of the commands \<open>cmds\<close> of a history: every distinct command once, paired with
  its number of occurrences, by descending count, and among equal counts by the position
  of the first occurrence.
\<close>

definition ranked_by_frequency :: "string list \<Rightarrow> (string \<times> nat) list \<Rightarrow> bool" where
  "ranked_by_frequency cmds ranked =
     (distinct (map fst ranked)
      \<and> set ranked = (\<lambda>c. (c, count_list cmds c)) ` set cmds
      \<and> sorted_wrt (\<lambda>p q. snd q < snd p \<or>
                         (snd p = snd q \<and> first_index cmds (fst p) < first_index cmds (fst q)))
            ranked)"

text \<open>
  Resolution as the specification words it. \<open>first_entry P cat e\<close>: \<open>e\<close> is the first entry
  of the catalogue, in iteration order, that satisfies \<open>P\<close>.
\<close>

definition first_entry :: "('a \<Rightarrow> bool) \<Rightarrow> 'a list \<Rightarrow> 'a \<Rightarrow> bool" where
  "first_entry P cat e = (\<exists>pre post. cat = pre @ e # post \<and> P e \<and> (\<forall>y \<in> set pre. \<not> P y))"

definition name_matches :: "string \<Rightarrow> string \<times> app_info \<Rightarrow> bool" where
  "name_matches i e = (lower (name (snd e)) = i)"

definition partially_matches :: "string \<Rightarrow> string \<times> app_info \<Rightarrow> bool" where
  "partially_matches i e =
     ((\<exists>ps ss. fst e = ps @ i @ ss) \<or> (\<exists>ps ss. lower (name (snd e)) = ps @ i @ ss))"

definition resolves_to :: "(string \<times> app_info) list \<Rightarrow> string \<Rightarrow> app_info option \<Rightarrow> bool" where
  "resolves_to cat i r =
     (if i \<in> fst ` set cat then (\<exists>a. r = Some a \<and> (i, a) \<in> set cat)
      else if \<exists>e \<in> set cat. name_matches i e
      then (\<exists>e. first_entry (name_matches i) cat e \<and> r = Some (snd e))
      else if \<exists>e \<in> set cat. partially_matches i e
      then (\<exists>e. first_entry (partially_matches i) cat e \<and> r = Some (snd e))
      else r = None)"

text \<open>
  The Jaccard index of the character sets of two strings (lower-cased), and the test that
  selects a catalogue entry as a suggestion for an identifier.
\<close>

definition jaccard :: "string \<Rightarrow> string \<Rightarrow> rat" where
  "jaccard x y =
     of_nat (card (set (lower x) \<inter> set (lower y))) / of_nat (card (set (lower x) \<union> set (lower y)))"

definition is_similar :: "string \<Rightarrow> string \<times> app_info \<Rightarrow> bool" where
  "is_similar i e =
     ((\<exists>ps ss. fst e = ps @ i @ ss) \<or> (\<exists>ps ss. lower (name (snd e)) = ps @ i @ ss)
      \<or> jaccard i (fst e) > 1 / 2)"

text \<open>
  The launch count recorded for a key (zero while the key has no record), and a session
  of launcher operations. An operation that raises leaves the launcher as it was.
\<close>

definition count_of :: "launcher \<Rightarrow> string \<Rightarrow> nat" where
  "count_of s k = (case map_of (app_usage_stats s) k of None \<Rightarrow> 0 | Some st \<Rightarrow> launch_count st)"

datatype launcher_op =
    Launch string "launch_parameters option" string string
  | AddToFavorites string
  | SwitchToRecent int string string

fun apply_op :: "launcher \<Rightarrow> launcher_op \<Rightarrow> launcher" where
  "apply_op s (Launch ident params t_stats t_result) = snd (launch s ident params t_stats t_result)"
| "apply_op s (AddToFavorites ident) = snd (add_to_favorites s ident)"
| "apply_op s (SwitchToRecent index t_stats t_result) =
     (case switch_to_recent s index t_stats t_result of
        Inl err \<Rightarrow> s
      | Inr r \<Rightarrow> snd r)"

fun run_ops :: "launcher \<Rightarrow> launcher_op list \<Rightarrow> launcher" where
  "run_ops s [] = s"
| "run_ops s (op # ops) = run_ops (apply_op s op) ops"

section \<open>Strings: basic facts\<close>

lemma starts_with_prefix: "starts_with sub s = prefix sub s"
  by (induction sub s rule: starts_with.induct) simp_all

lemma str_in_sublist: "str_in sub s = sublist sub s"
  by (induction s) (simp_all add: starts_with_prefix sublist_Cons_right)

lemma str_in_iff: "str_in sub s \<longleftrightarrow> (\<exists>ps ss. s = ps @ sub @ ss)"
  by (simp add: str_in_sublist sublist_def)

lemma any_keyword_in_iff:
  "any_keyword_in ks text \<longleftrightarrow> (\<exists>k \<in> set ks. \<exists>ps ss. text = ps @ k @ ss)"
  by (induction ks) (simp_all add: str_in_iff)

lemma any_keyword_in_mentions: "any_keyword_in ks (lower text) = mentions (set ks) text"
  by (simp add: any_keyword_in_iff mentions_def)

lemma lower_append: "lower (xs @ ys) = lower xs @ lower ys"
  by (simp add: lower_def)

lemma lower_char_idem: "lower_char (lower_char c) = lower_char c"
  by (simp add: lower_char_def upper_letters_def lower_letters_def)

lemma lower_idem: "lower (lower s) = lower s"
  by (simp add: lower_def lower_char_idem)

section \<open>Classification\<close>

lemma keyword_sets:
  "set automation_keywords = {''when'', ''every'', ''schedule'', ''automate''}"
  "set launch_keywords = {''open'', ''launch'', ''start''}"
  "set control_keywords = {''set'', ''enable'', ''disable'', ''turn''}"
  "set query_keywords = {''what'', ''where'', ''how'', ''tell'', ''show''}"
  by (simp_all add: automation_keywords_def launch_keywords_def control_keywords_def
      query_keywords_def)

lemma analyze_intent_refines: "analyze_intent text = Classify_spec text"
  unfolding analyze_intent_def Classify_spec_def Let_def any_keyword_in_mentions keyword_sets
  by (rule refl)

text \<open>
  C1: the classifier is a total function into the five intent tags, it agrees on every
  text with the priority chain of the specification (automation, then launch, then
  control, then query keywords over the lower-cased text, else INTEGRATION), and a text
  that mentions an automation keyword and a launch keyword is classified AUTOMATION.
\<close>

theorem analyze_intent_priority:
  "analyze_intent text \<in> {LAUNCH_APP, SYSTEM_CONTROL, AUTOMATION, QUERY, INTEGRATION}
   \<and> analyze_intent text = Classify_spec text
   \<and> (mentions (set automation_keywords) text \<and> mentions (set launch_keywords) text
        \<longrightarrow> analyze_intent text = AUTOMATION)"
proof -
  have five: "analyze_intent text \<in> {LAUNCH_APP, SYSTEM_CONTROL, AUTOMATION, QUERY, INTEGRATION}"
    by (cases "analyze_intent text") simp_all
  have auto: "analyze_intent text = AUTOMATION" if "mentions (set automation_keywords) text"
    using that unfolding analyze_intent_def Let_def any_keyword_in_mentions by simp
  show ?thesis
    using five auto analyze_intent_refines by blast
qed

theorem analyze_intent_priority_witness:
  "mentions (set automation_keywords) ''When I open Gmail''
   \<and> mentions (set launch_keywords) ''When I open Gmail''
   \<and> analyze_intent ''When I open Gmail'' = AUTOMATION"
proof -
  have a: "any_keyword_in automation_keywords (lower ''When I open Gmail'')"
    by code_simp
  have l: "any_keyword_in launch_keywords (lower ''When I open Gmail'')"
    by code_simp
  have m: "mentions (set automation_keywords) ''When I open Gmail''"
    "mentions (set launch_keywords) ''When I open Gmail''"
    using a l by (simp_all add: any_keyword_in_mentions)
  show ?thesis
    using analyze_intent_priority [of "''When I open Gmail''"] m by blast
qed

section \<open>Entity extraction and the launch handler\<close>

lemma split_acc_nonempty: "w \<in> set (split_acc cur s) \<Longrightarrow> w \<noteq> []"
  by (induction s arbitrary: cur) (auto split: if_splits)

lemma extract_loop_skip:
  "\<forall>w \<in> set pre. \<not> is_launch_verb w \<Longrightarrow>
   extract_loop words i (pre @ rest) e = extract_loop words (i + length pre) rest e"
  by (induction pre arbitrary: i) (simp_all add: is_launch_verb_def keyword_sets)

lemma extract_loop_no_verb:
  "\<forall>w \<in> set ws. \<not> is_launch_verb w \<Longrightarrow> extract_loop words i ws e = e"
  using extract_loop_skip [of ws words i "[]" e] by simp

lemma extract_entities_cases:
  fixes cmd :: string
  defines "ws \<equiv> split cmd"
  shows "(no_followed_verb ws \<and> app_name (extract_entities cmd) = None) \<or>
         (\<exists>n. follows_first_verb ws n \<and> app_name (extract_entities cmd) = Some n)"
proof -
  define pre where "pre = takeWhile (\<lambda>w. \<not> is_launch_verb w) ws"
  define rest where "rest = dropWhile (\<lambda>w. \<not> is_launch_verb w) ws"
  have ws: "ws = pre @ rest" and pre: "\<forall>w \<in> set pre. \<not> is_launch_verb w"
    by (auto simp: pre_def rest_def dest: set_takeWhileD)
  let ?e0 = "\<lparr> app_name = None, action = None, parameters = [] \<rparr>"
  have ee: "extract_entities cmd = extract_loop ws (length pre) rest ?e0"
    using extract_loop_skip [OF pre, of ws 0 rest ?e0] ws
    by (simp add: extract_entities_def ws_def Let_def)
  show ?thesis
  proof (cases rest)
    case Nil
    then show ?thesis using ws pre ee by (simp add: no_followed_verb_def)
  next
    case (Cons v r)
    have v: "is_launch_verb v"
      using Cons by (simp add: rest_def dropWhile_eq_Cons_conv)
    show ?thesis
    proof (cases r)
      case Nil
      have "no_followed_verb ws"
        unfolding no_followed_verb_def using ws pre v Cons Nil by blast
      moreover have "app_name (extract_entities cmd) = None"
        using ee ws v Cons Nil by (simp add: is_launch_verb_def keyword_sets)
      ultimately show ?thesis by simp
    next
      case (Cons n post)
      have "follows_first_verb ws n"
        unfolding follows_first_verb_def using ws pre v \<open>rest = v # r\<close> Cons by blast
      moreover have "ws ! (length pre + 1) = n" "length pre + 1 < length ws"
        using ws \<open>rest = v # r\<close> Cons by (simp_all add: nth_append)
      then have "app_name (extract_entities cmd) = Some n"
        using ee v \<open>rest = v # r\<close> by (simp add: is_launch_verb_def keyword_sets)
      ultimately show ?thesis by blast
    qed
  qed
qed

lemma dropWhile_first_verb:
  "\<forall>w \<in> set pre. \<not> is_launch_verb w \<Longrightarrow> is_launch_verb v \<Longrightarrow>
   dropWhile (\<lambda>w. \<not> is_launch_verb w) (pre @ v # r) = v # r"
  by (simp add: dropWhile_append2)

lemma follows_first_verb_unique:
  "follows_first_verb ws n \<Longrightarrow> follows_first_verb ws m \<Longrightarrow> n = m"
  unfolding follows_first_verb_def
  by (metis dropWhile_first_verb list.inject)

lemma follows_excludes: "follows_first_verb ws n \<Longrightarrow> \<not> no_followed_verb ws"
proof
  assume f: "follows_first_verb ws n" and nf: "no_followed_verb ws"
  from f obtain pre v post where
    ws: "ws = pre @ v # n # post" and v: "is_launch_verb v"
    and pre: "\<forall>w \<in> set pre. \<not> is_launch_verb w"
    unfolding follows_first_verb_def by blast
  have d: "dropWhile (\<lambda>w. \<not> is_launch_verb w) ws = v # n # post"
    using dropWhile_first_verb [OF pre v] ws by simp
  from nf show False
    unfolding no_followed_verb_def
  proof
    assume "\<forall>w \<in> set ws. \<not> is_launch_verb w"
    then show False using ws v by simp
  next
    assume "\<exists>pre v. ws = pre @ [v] \<and> is_launch_verb v \<and> (\<forall>w \<in> set pre. \<not> is_launch_verb w)"
    then obtain pre' v' where "ws = pre' @ [v']" "is_launch_verb v'"
      "\<forall>w \<in> set pre'. \<not> is_launch_verb w" by blast
    then have "dropWhile (\<lambda>w. \<not> is_launch_verb w) ws = [v']"
      using dropWhile_first_verb [of pre' v' "[]"] by simp
    then show False using d by simp
  qed
qed

lemma extract_entities_Some_iff:
  "app_name (extract_entities cmd) = Some n \<longleftrightarrow> follows_first_verb (split cmd) n"
  using extract_entities_cases [of cmd] follows_first_verb_unique follows_excludes
  by (metis option.distinct(1) option.inject)

lemma extract_entities_None_iff:
  "app_name (extract_entities cmd) = None \<longleftrightarrow> no_followed_verb (split cmd)"
  using extract_entities_cases [of cmd] follows_excludes
  by (metis option.distinct(1))


lemma extracted_name_nonempty:
  assumes "app_name (extract_entities cmd) = Some n"
  shows "n \<noteq> []"
proof -
  have "n \<in> set (split cmd)"
    using assms unfolding extract_entities_Some_iff follows_first_verb_def by auto
  then show ?thesis
    unfolding split_def by (rule split_acc_nonempty)
qed

lemma handler_success:
  "map_of (system_control e now) ''success'' = Some (PyBool True)"
  "map_of (create_automation e now) ''success'' = Some (PyBool True)"
  "map_of (process_query e now) ''success'' = Some (PyBool True)"
  "map_of (handle_integration e now) ''success'' = Some (PyBool True)"
  by (simp_all add: system_control_def create_automation_def process_query_def
      handle_integration_def)

lemma launch_app_result:
  "launch_app None now = missing_app_name"
  "n \<noteq> [] \<Longrightarrow> launch_app (Some n) now \<noteq> missing_app_name"
  "n \<noteq> [] \<Longrightarrow> map_of (launch_app (Some n) now) ''success'' = Some (PyBool True)"
  by (simp_all add: launch_app_def missing_app_name_def)

lemma fst_process_command:
  "fst (process_command a cmd ctx t_exec t_store) =
     execute_command (analyze_intent cmd) (extract_entities cmd) ctx t_exec"
  by (simp add: process_command_def Let_def)

text \<open>
  C2: on a text classified LAUNCH_APP, \<open>process_command\<close> returns the failure result
  with the missing-app-name error exactly when extraction produced no app name (and a
  success result otherwise); on a text of any other intent it returns a success result;
  and extraction yields the token that follows the first launch-verb token of the
  whitespace-split text, and nothing exactly when no token is a launch verb or the first
  launch verb is the last token.
\<close>

theorem process_command_missing_app_name:
  "(analyze_intent cmd = LAUNCH_APP \<longrightarrow>
      ((fst (process_command a cmd ctx t_exec t_store) = missing_app_name)
         = (app_name (extract_entities cmd) = None))
      \<and> map_of (fst (process_command a cmd ctx t_exec t_store)) ''success''
          = Some (PyBool (app_name (extract_entities cmd) \<noteq> None)))
   \<and> (analyze_intent cmd \<noteq> LAUNCH_APP \<longrightarrow>
        map_of (fst (process_command a cmd ctx t_exec t_store)) ''success''
          = Some (PyBool True))
   \<and> (\<forall>n. (app_name (extract_entities cmd) = Some n) = follows_first_verb (split cmd) n)
   \<and> ((app_name (extract_entities cmd) = None) = no_followed_verb (split cmd))"
proof -
  have launch: "(execute_command LAUNCH_APP (extract_entities cmd) ctx t_exec = missing_app_name)
                  = (app_name (extract_entities cmd) = None)
                \<and> map_of (execute_command LAUNCH_APP (extract_entities cmd) ctx t_exec) ''success''
                  = Some (PyBool (app_name (extract_entities cmd) \<noteq> None))"
  proof (cases "app_name (extract_entities cmd)")
    case None
    then show ?thesis by (simp add: launch_app_result(1)) (simp add: missing_app_name_def)
  next
    case (Some n)
    then have "n \<noteq> []" by (rule extracted_name_nonempty)
    then show ?thesis using Some by (simp add: launch_app_result)
  qed
  have other: "map_of (execute_command i (extract_entities cmd) ctx t_exec) ''success''
                 = Some (PyBool True)" if "i \<noteq> LAUNCH_APP" for i
    using that by (cases i) (simp_all add: handler_success)
  show ?thesis
    unfolding fst_process_command
    using launch other extract_entities_Some_iff extract_entities_None_iff by auto
qed

theorem process_command_missing_app_name_witness:
  "analyze_intent ''please reopen'' = LAUNCH_APP
   \<and> no_followed_verb (split ''please reopen'')
   \<and> fst (process_command (init_agent None) ''please reopen'' None ''t1'' ''t2'')
       = missing_app_name
   \<and> analyze_intent ''Open Gmail'' = LAUNCH_APP
   \<and> follows_first_verb (split ''Open Gmail'') ''Gmail''
   \<and> map_of (fst (process_command (init_agent None) ''Open Gmail'' None ''t1'' ''t2''))
         ''success'' = Some (PyBool True)
   \<and> analyze_intent ''Enable WiFi'' \<noteq> LAUNCH_APP
   \<and> map_of (fst (process_command (init_agent None) ''Enable WiFi'' None ''t1'' ''t2''))
         ''success'' = Some (PyBool True)"
proof -
  have i1: "analyze_intent ''please reopen'' = LAUNCH_APP" by code_simp
  have e1: "app_name (extract_entities ''please reopen'') = None" by code_simp
  have i2: "analyze_intent ''Open Gmail'' = LAUNCH_APP" by code_simp
  have e2: "app_name (extract_entities ''Open Gmail'') = Some ''Gmail''" by code_simp
  have i3: "analyze_intent ''Enable WiFi'' \<noteq> LAUNCH_APP" by code_simp
  note t1 = process_command_missing_app_name
    [of "''please reopen''" "init_agent None" None "''t1''" "''t2''"]
  note t2 = process_command_missing_app_name
    [of "''Open Gmail''" "init_agent None" None "''t1''" "''t2''"]
  note t3 = process_command_missing_app_name
    [of "''Enable WiFi''" "init_agent None" None "''t1''" "''t2''"]
  show ?thesis
    using t1 t2 t3 i1 e1 i2 e2 i3 by auto
qed

section \<open>The bounded command history\<close>

lemma slice_from_neg: "0 < m \<Longrightarrow> slice_from xs (- m) = drop (length xs - nat m) xs"
  by (auto simp: slice_from_def nat_diff_distrib' max_def intro!: arg_cong2[where f=drop])

lemma store_command_history_history:
  assumes "max_history (config a) = Some m" "0 < m"
  shows "command_history (store_command_history a cmd i res now) =
         drop (length (command_history a) + 1 - nat m)
           (command_history a @ [\<lparr> command = cmd, intent = CommandType_value i, result = res,
                                   timestamp = now \<rparr>])"
  using assms by (auto simp: store_command_history_def Let_def slice_from_neg)

lemma store_command_history_config:
  "config (store_command_history a cmd i res now) = config a"
  by (simp add: store_command_history_def Let_def)

lemma process_command_config:
  "config (snd (process_command a cmd ctx t1 t2)) = config a"
  by (simp add: process_command_def Let_def store_command_history_config)

lemma process_command_history:
  assumes "learning_enabled (config a) = Some True" "max_history (config a) = Some m" "0 < m"
  shows "command_history (snd (process_command a cmd ctx t1 t2)) =
         drop (length (command_history a) + 1 - nat m)
           (command_history a @ [entry_of (cmd, ctx, t1, t2)])"
  using assms
  by (simp add: process_command_def Let_def store_command_history_history entry_of_def)

lemma drop_window:
  fixes X :: "'a list"
  assumes "k = length X - m"
  shows "drop (length (drop k X @ es) - m) (drop k X @ es) = drop (length (X @ es) - m) (X @ es)"
proof -
  define N where "N = length (drop k X @ es) - m"
  have app: "drop k X @ es = drop k (X @ es)" using assms by simp
  have n: "N + k = length (X @ es) - m"
    unfolding N_def using assms by auto
  have "drop N (drop k X @ es) = drop N (drop k (X @ es))"
    by (simp only: app)
  also have "\<dots> = drop (N + k) (X @ es)"
    by (rule drop_drop)
  finally have "drop N (drop k X @ es) = drop (length (X @ es) - m) (X @ es)"
    by (simp only: n)
  then show ?thesis
    by (simp only: N_def)
qed

lemma process_commands_config:
  "config (process_commands a calls) = config a"
  by (induction a calls rule: process_commands.induct) (simp_all add: process_command_config)

lemma process_commands_history:
  assumes "learning_enabled (config a) = Some True" "max_history (config a) = Some m" "0 < m"
    and "length (command_history a) \<le> nat m"
  shows "command_history (process_commands a calls) =
         drop (length (command_history a @ map entry_of calls) - nat m)
           (command_history a @ map entry_of calls)"
  using assms
proof (induction a calls rule: process_commands.induct)
  case (1 a)
  then show ?case by simp
next
  case (2 a cmd ctx t1 t2 calls)
  let ?a = "snd (process_command a cmd ctx t1 t2)"
  let ?X = "command_history a @ [entry_of (cmd, ctx, t1, t2)]"
  have h: "command_history ?a = drop (length ?X - nat m) ?X"
    using process_command_history [OF "2.prems"(1-3)] by simp
  have len: "length (command_history ?a) \<le> nat m"
    unfolding h using "2.prems"(3) by simp
  have "command_history (process_commands ?a calls) =
          drop (length (command_history ?a @ map entry_of calls) - nat m)
            (command_history ?a @ map entry_of calls)"
    using "2.IH" "2.prems"(1-3) len by (simp add: process_command_config)
  also have "\<dots> = drop (length (?X @ map entry_of calls) - nat m) (?X @ map entry_of calls)"
    unfolding h by (rule drop_window) simp
  finally show ?case by simp
qed

text \<open>
  C5: with learning enabled and a positive \<open>max_history\<close> of \<open>m\<close>, a fresh agent that has
  processed \<open>N\<close> commands holds exactly the last \<open>min N m\<close> history entries, in order, and
  a successful export then reports \<open>history_count = min N m\<close>; with learning disabled,
  \<open>process_command\<close> leaves the history as it is.
\<close>

theorem history_bounded:
  "(learning_enabled (config a) = Some True \<and> max_history (config a) = Some m \<and> 0 < m
      \<and> command_history a = [] \<longrightarrow>
        command_history (process_commands a calls)
          = drop (length calls - nat m) (map entry_of calls)
        \<and> length (command_history (process_commands a calls)) = min (length calls) (nat m)
        \<and> (\<exists>doc. export_data (process_commands a calls) filepath now True = (True, Some doc)
               \<and> history_count doc = min (length calls) (nat m)))
   \<and> (learning_enabled (config a0) \<noteq> Some True \<longrightarrow>
        command_history (snd (process_command a0 cmd ctx t_exec t_store))
          = command_history a0)"
proof -
  have off: "command_history (snd (process_command a0 cmd ctx t_exec t_store))
                = command_history a0" if "learning_enabled (config a0) \<noteq> Some True"
    using that by (simp add: process_command_def Let_def)
  have on: "command_history (process_commands a calls)
              = drop (length calls - nat m) (map entry_of calls)"
    if "learning_enabled (config a) = Some True" "max_history (config a) = Some m" "0 < m"
       "command_history a = []"
    using process_commands_history [OF that(1-3), of calls] that(4) by simp
  have len: "length (drop (length calls - nat m) (map entry_of calls)) = min (length calls) (nat m)"
    by simp
  show ?thesis
    using off on len by (simp add: export_data_def)
qed

theorem history_bounded_witness:
  "command_history
     (process_commands (init_agent (Some (load_default_config\<lparr> max_history := Some 2 \<rparr>)))
        [(''Open Gmail'', None, ''t1'', ''t2''), (''Launch camera'', None, ''t3'', ''t4''),
         (''Enable WiFi'', None, ''t5'', ''t6'')])
     = map entry_of [(''Launch camera'', None, ''t3'', ''t4''), (''Enable WiFi'', None, ''t5'', ''t6'')]
   \<and> (\<exists>doc. export_data
          (process_commands (init_agent (Some (load_default_config\<lparr> max_history := Some 2 \<rparr>)))
            [(''Open Gmail'', None, ''t1'', ''t2''), (''Launch camera'', None, ''t3'', ''t4''),
             (''Enable WiFi'', None, ''t5'', ''t6'')])
          ''export.json'' ''t7'' True = (True, Some doc)
        \<and> history_count doc = 2)
   \<and> command_history
        (snd (process_command
               (init_agent (Some (load_default_config\<lparr> learning_enabled := Some False \<rparr>)))
               ''Open Gmail'' None ''t1'' ''t2'')) = []"
proof -
  let ?a = "init_agent (Some (load_default_config\<lparr> max_history := Some 2 \<rparr>))"
  let ?b = "init_agent (Some (load_default_config\<lparr> learning_enabled := Some False \<rparr>))"
  have a: "learning_enabled (config ?a) = Some True" "max_history (config ?a) = Some 2"
    "command_history ?a = []"
    by (simp_all add: init_agent_def load_default_config_def empty_config_def)
  have a0: "learning_enabled (config ?b) \<noteq> Some True" "command_history ?b = []"
    by (simp_all add: init_agent_def load_default_config_def empty_config_def)
  show ?thesis
    using history_bounded [of ?a 2
        "[(''Open Gmail'', None, ''t1'', ''t2''), (''Launch camera'', None, ''t3'', ''t4''),
          (''Enable WiFi'', None, ''t5'', ''t6'')]" "''export.json''" "''t7''" ?b
        "''Open Gmail''" None "''t1''" "''t2''"] a a0
    by (auto simp del: process_commands.simps)
qed

section \<open>Learning the frequent commands\<close>

lemma map_fst_dict_set:
  "map fst (dict_set d k v) = (if k \<in> fst ` set d then map fst d else map fst d @ [k])"
  by (induction d k v rule: dict_set.induct) auto

lemma map_of_dict_set: "map_of (dict_set d k v) = (map_of d)(k \<mapsto> v)"
  by (induction d k v rule: dict_set.induct) auto

lemma command_frequency_loop_snoc:
  "command_frequency_loop freq (es @ [e]) =
     (let f = command_frequency_loop freq es in
      dict_set f (command e) ((case map_of f (command e) of None \<Rightarrow> 0 | Some n \<Rightarrow> n) + 1))"
  by (induction es arbitrary: freq) (simp_all add: Let_def)

lemma first_index_less: "x \<in> set xs \<Longrightarrow> first_index xs x < length xs"
  by (induction xs) (auto simp: first_index_def)

lemma first_index_append_old: "x \<in> set xs \<Longrightarrow> first_index (xs @ ys) x = first_index xs x"
  by (induction xs) (auto simp: first_index_def)

lemma first_index_append_new: "x \<notin> set xs \<Longrightarrow> first_index (xs @ [x]) x = length xs"
  by (induction xs) (auto simp: first_index_def)

text \<open>
  The counting loop from the empty dictionary: the keys are the distinct commands in the
  order of their first occurrence, each with its number of occurrences.
\<close>

lemma command_frequency_loop_keys:
  fixes es :: "history_entry list"
  defines "f \<equiv> command_frequency_loop [] es"
  shows "distinct (map fst f) \<and> set (map fst f) = set (map command es)
         \<and> sorted_wrt (\<lambda>c d. first_index (map command es) c < first_index (map command es) d)
               (map fst f)"
  unfolding f_def
proof (induction es rule: rev_induct)
  case Nil
  then show ?case by simp
next
  case (snoc e es)
  let ?f = "command_frequency_loop [] es"
  let ?cs = "map command es"
  let ?c = "command e"
  have keys: "map fst (command_frequency_loop [] (es @ [e]))
                = (if ?c \<in> set ?cs then map fst ?f else map fst ?f @ [?c])"
    using snoc.IH by (simp add: command_frequency_loop_snoc Let_def map_fst_dict_set)
  have old: "sorted_wrt (\<lambda>c d. first_index (?cs @ [?c]) c < first_index (?cs @ [?c]) d) (map fst ?f)"
  proof (rule sorted_wrt_mono_rel [rotated])
    show "sorted_wrt (\<lambda>c d. first_index ?cs c < first_index ?cs d) (map fst ?f)"
      using snoc.IH by simp
  next
    fix c d assume "c \<in> set (map fst ?f)" "d \<in> set (map fst ?f)"
      "first_index ?cs c < first_index ?cs d"
    then show "first_index (?cs @ [?c]) c < first_index (?cs @ [?c]) d"
      using snoc.IH by (simp add: first_index_append_old)
  qed
  show ?case
  proof (cases "?c \<in> set ?cs")
    case True
    then show ?thesis using keys old snoc.IH by auto
  next
    case False
    have "first_index (?cs @ [?c]) c < first_index (?cs @ [?c]) ?c" if "c \<in> set ?cs" for c
      using that False first_index_less [of c ?cs]
      by (simp add: first_index_append_old first_index_append_new)
    then show ?thesis
      using False keys old snoc.IH by (auto simp: sorted_wrt_append)
  qed
qed

lemma command_frequency_loop_counts:
  "c \<in> set (map command es) \<Longrightarrow>
   map_of (command_frequency_loop [] es) c = Some (count_list (map command es) c)"
proof (induction es rule: rev_induct)
  case Nil
  then show ?case by simp
next
  case (snoc e es)
  let ?f = "command_frequency_loop [] es"
  have none: "map_of ?f (command e) = None" if "command e \<notin> set (map command es)"
    using that command_frequency_loop_keys [of es] by (simp add: map_of_eq_None_iff)
  show ?case
  proof (cases "c \<in> set (map command es)")
    case True
    then show ?thesis
      using snoc.IH by (auto simp: command_frequency_loop_snoc Let_def map_of_dict_set)
  next
    case False
    then have "c = command e" using snoc.prems by auto
    then show ?thesis
      using False none by (simp add: command_frequency_loop_snoc Let_def map_of_dict_set)
  qed
qed

lemma command_frequency_loop_set:
  "set (command_frequency_loop [] es)
     = (\<lambda>c. (c, count_list (map command es) c)) ` set (map command es)"
proof -
  let ?f = "command_frequency_loop [] es"
  have d: "distinct (map fst ?f)" and k: "set (map fst ?f) = set (map command es)"
    using command_frequency_loop_keys [of es] by simp_all
  show ?thesis
  proof (rule set_eqI)
    fix p :: "string \<times> nat"
    obtain c n where p: "p = (c, n)" by (cases p)
    have "(c, n) \<in> set ?f \<longleftrightarrow> map_of ?f c = Some n"
      using d by simp
    also have "\<dots> \<longleftrightarrow> c \<in> set (map command es) \<and> n = count_list (map command es) c"
      using command_frequency_loop_counts [of c es] k
      by (metis (no_types, lifting) domI dom_map_of_conv_image_fst list.set_map option.inject)
    finally show "p \<in> set ?f \<longleftrightarrow> p \<in> (\<lambda>c. (c, count_list (map command es) c)) ` set (map command es)"
      unfolding p by auto
  qed
qed

text \<open>A stable sort keeps, among elements of equal key, an order the input already had.\<close>

lemma insort_key_lex:
  assumes "sorted_wrt (\<lambda>a b. f a < f b \<or> (f a = f b \<and> P a b)) ys"
    and "\<forall>y \<in> set ys. P x y"
  shows "sorted_wrt (\<lambda>a b. f a < f b \<or> (f a = f b \<and> P a b)) (insort_key f x ys)"
  using assms
proof (induction ys)
  case Nil
  then show ?case by simp
next
  case (Cons y ys)
  show ?case
  proof (cases "f x \<le> f y")
    case True
    have "f x < f z \<or> (f x = f z \<and> P x z)" if "z \<in> set (y # ys)" for z
    proof -
      have "f y \<le> f z" using Cons.prems(1) that by auto
      then have "f x \<le> f z" using True by simp
      moreover have "P x z" using Cons.prems(2) that by blast
      ultimately show ?thesis by auto
    qed
    then show ?thesis using True Cons.prems(1) by auto
  next
    case False
    then show ?thesis
      using Cons by (auto simp: set_insort_key)
  qed
qed

lemma sort_key_lex:
  fixes f :: "'a \<Rightarrow> int"
  assumes "sorted_wrt P xs"
  shows "sorted_wrt (\<lambda>a b. f a < f b \<or> (f a = f b \<and> P a b)) (sort_key f xs)"
  using assms
  by (induction xs) (simp_all add: insort_key_lex)

lemma sorted_reverse_ranked:
  "ranked_by_frequency (map command es) (sorted_reverse snd (command_frequency_loop [] es))"
proof -
  let ?cs = "map command es"
  let ?f = "command_frequency_loop [] es"
  let ?P = "\<lambda>p q :: string \<times> nat. first_index ?cs (fst p) < first_index ?cs (fst q)"
  let ?k = "\<lambda>x :: string \<times> nat. - int (snd x)"
  have keys: "distinct (map fst ?f)"
    "sorted_wrt (\<lambda>c d. first_index ?cs c < first_index ?cs d) (map fst ?f)"
    using command_frequency_loop_keys [of es] by simp_all
  have d: "distinct (map fst (sort_key ?k ?f))"
    using keys(1) by (simp add: distinct_map)
  have "sorted_wrt ?P ?f"
    using keys(2) by (simp add: sorted_wrt_map)
  then have "sorted_wrt (\<lambda>a b. ?k a < ?k b \<or> (?k a = ?k b \<and> ?P a b)) (sort_key ?k ?f)"
    by (rule sort_key_lex)
  then have s: "sorted_wrt (\<lambda>p q. snd q < snd p \<or> (snd p = snd q \<and> ?P p q)) (sort_key ?k ?f)"
    by (rule sorted_wrt_mono_rel [rotated]) auto
  show ?thesis
    unfolding ranked_by_frequency_def sorted_reverse_def
    using d s by (simp add: command_frequency_loop_set)
qed

text \<open>
  C9: on a non-empty history, \<open>learn_from_patterns\<close> returns as \<open>frequent_commands\<close> the first
  ten entries of the ranking of the history's raw command texts (each with its number of
  occurrences, by descending count, ties in the order of first occurrence), and the result
  is computed from the history alone, whatever patterns were stored before.
\<close>

theorem learn_from_patterns_top10:
  "(command_history a \<noteq> [] \<longrightarrow>
      (\<exists>lp ranked. fst (learn_from_patterns a) = Some lp
         \<and> frequent_commands lp = take 10 ranked
         \<and> ranked_by_frequency (map command (command_history a)) ranked))
   \<and> fst (learn_from_patterns (a\<lparr> learned_patterns := old \<rparr>)) = fst (learn_from_patterns a)"
proof -
  have "\<exists>lp ranked. fst (learn_from_patterns a) = Some lp
         \<and> frequent_commands lp = take 10 ranked
         \<and> ranked_by_frequency (map command (command_history a)) ranked"
    if "command_history a \<noteq> []"
    using that sorted_reverse_ranked [of "command_history a"]
    by (auto simp: learn_from_patterns_def Let_def)
  moreover have "fst (learn_from_patterns (a\<lparr> learned_patterns := old \<rparr>))
                   = fst (learn_from_patterns a)"
    by (simp add: learn_from_patterns_def Let_def analyze_time_patterns_def)
  ultimately show ?thesis by blast
qed

theorem learn_from_patterns_top10_witness:
  "command_history
     (process_commands (init_agent None)
        [(''b'', None, ''t'', ''t''), (''a'', None, ''t'', ''t''), (''c'', None, ''t'', ''t''),
         (''a'', None, ''t'', ''t''), (''b'', None, ''t'', ''t'')]) \<noteq> []
   \<and> (\<exists>lp ranked.
         fst (learn_from_patterns
                (process_commands (init_agent None)
                   [(''b'', None, ''t'', ''t''), (''a'', None, ''t'', ''t''),
                    (''c'', None, ''t'', ''t''), (''a'', None, ''t'', ''t''),
                    (''b'', None, ''t'', ''t'')])) = Some lp
         \<and> frequent_commands lp = [(''b'', 2), (''a'', 2), (''c'', 1)]
         \<and> frequent_commands lp = take 10 ranked
         \<and> ranked_by_frequency [''b'', ''a'', ''c'', ''a'', ''b''] ranked)"
proof -
  let ?A = "process_commands (init_agent None)
        [(''b'', None, ''t'', ''t''), (''a'', None, ''t'', ''t''), (''c'', None, ''t'', ''t''),
         (''a'', None, ''t'', ''t''), (''b'', None, ''t'', ''t'')]"
  have h: "map command (command_history ?A) = [''b'', ''a'', ''c'', ''a'', ''b'']"
    by code_simp
  have v: "map_option frequent_commands (fst (learn_from_patterns ?A))
             = Some [(''b'', 2), (''a'', 2), (''c'', 1)]"
    by code_simp
  have ne: "command_history ?A \<noteq> []"
    using h by auto
  show ?thesis
    using learn_from_patterns_top10 [of ?A] ne h v by auto
qed

section \<open>Resolving an identifier\<close>

lemma is_space_lower_char: "is_space (lower_char c) = is_space c"
  by (simp add: lower_char_def is_space_def whitespace_def upper_letters_def lower_letters_def)

lemma dropWhile_space_lower: "dropWhile is_space (lower s) = lower (dropWhile is_space s)"
  by (induction s) (simp_all add: lower_def is_space_lower_char)

lemma strip_lower: "strip (lower s) = lower (strip s)"
proof -
  have "rev (lower s) = lower (rev s)" for s
    by (simp add: lower_def rev_map)
  then show ?thesis
    by (simp add: strip_def dropWhile_space_lower)
qed

lemma first_entry_Cons:
  "first_entry P (x # xs) e = (if P x then e = x else first_entry P xs e)"
proof (cases "P x")
  case True
  have "first_entry P (x # xs) e \<longleftrightarrow> e = x"
  proof
    assume "first_entry P (x # xs) e"
    then obtain pre post where d: "x # xs = pre @ e # post" "\<forall>y \<in> set pre. \<not> P y"
      unfolding first_entry_def by blast
    then show "e = x" using True by (cases pre) auto
  next
    assume "e = x"
    then show "first_entry P (x # xs) e"
      unfolding first_entry_def using True
      by (intro exI [of _ "[]"] exI [of _ xs]) simp
  qed
  then show ?thesis using True by simp
next
  case False
  have "first_entry P (x # xs) e \<longleftrightarrow> first_entry P xs e"
  proof
    assume "first_entry P (x # xs) e"
    then obtain pre post where d: "x # xs = pre @ e # post" "P e" "\<forall>y \<in> set pre. \<not> P y"
      unfolding first_entry_def by blast
    then obtain pre' where "pre = x # pre'" using False by (cases pre) auto
    then show "first_entry P xs e"
      unfolding first_entry_def using d by auto
  next
    assume "first_entry P xs e"
    then obtain pre post where "xs = pre @ e # post" "P e" "\<forall>y \<in> set pre. \<not> P y"
      unfolding first_entry_def by blast
    then show "first_entry P (x # xs) e"
      unfolding first_entry_def using False
      by (intro exI [of _ "x # pre"] exI [of _ post]) simp
  qed
  then show ?thesis using False by simp
qed

lemma find_by_display_name_None:
  "find_by_display_name cat i = None \<longleftrightarrow> (\<forall>e \<in> set cat. \<not> name_matches i e)"
  by (induction cat i rule: find_by_display_name.induct) (auto simp: name_matches_def)

lemma find_by_display_name_Some:
  "find_by_display_name cat i = Some a \<Longrightarrow>
   \<exists>e. first_entry (name_matches i) cat e \<and> a = snd e"
  by (induction cat i rule: find_by_display_name.induct)
     (auto simp: first_entry_Cons name_matches_def split: if_splits)

lemma find_partial_None:
  "find_partial cat i = None \<longleftrightarrow> (\<forall>e \<in> set cat. \<not> partially_matches i e)"
  by (induction cat i rule: find_partial.induct) (auto simp: partially_matches_def str_in_iff)

lemma find_partial_Some:
  "find_partial cat i = Some a \<Longrightarrow>
   \<exists>e. first_entry (partially_matches i) cat e \<and> a = snd e"
  by (induction cat i rule: find_partial.induct)
     (auto simp: first_entry_Cons partially_matches_def str_in_iff split: if_splits)

lemma find_app_resolves: "resolves_to (installed_apps s) i (find_app s i)"
proof (cases "map_of (installed_apps s) i")
  case (Some a)
  then have "(i, a) \<in> set (installed_apps s)" by (rule map_of_SomeD)
  then show ?thesis
    using Some by (force simp: resolves_to_def find_app_def)
next
  case None
  then have nk: "i \<notin> fst ` set (installed_apps s)" by (simp add: map_of_eq_None_iff)
  show ?thesis
  proof (cases "find_by_display_name (installed_apps s) i")
    case (Some a)
    then have "\<exists>e \<in> set (installed_apps s). name_matches i e"
      using find_by_display_name_None [of "installed_apps s" i] by auto
    then show ?thesis
      using nk None Some find_by_display_name_Some [OF Some]
      by (auto simp: resolves_to_def find_app_def)
  next
    case nn: None
    then have nm: "\<not> (\<exists>e \<in> set (installed_apps s). name_matches i e)"
      by (simp add: find_by_display_name_None)
    show ?thesis
    proof (cases "find_partial (installed_apps s) i")
      case None
      then show ?thesis
        using nk nm nn \<open>map_of (installed_apps s) i = None\<close>
        by (simp add: resolves_to_def find_app_def find_partial_None)
    next
      case (Some a)
      then have "\<exists>e \<in> set (installed_apps s). partially_matches i e"
        using find_partial_None [of "installed_apps s" i] by auto
      then show ?thesis
        using nk nm nn \<open>map_of (installed_apps s) i = None\<close> Some find_partial_Some [OF Some]
        by (auto simp: resolves_to_def find_app_def)
    qed
  qed
qed

lemma launch_success:
  "map_of (fst (launch s ident params t1 t2)) ''success''
     = Some (PyBool (find_app s (strip (lower ident)) \<noteq> None))"
  by (simp add: launch_def Let_def split: option.splits)

lemma launch_found:
  assumes "find_app s (strip (lower ident)) = Some a"
  shows "map_of (fst (launch s ident params t1 t2)) ''app_name'' = Some (PyStr (name a))"
    and "map_of (fst (launch s ident params t1 t2)) ''package'' = Some (PyStr (package a))"
  using assms by (simp_all add: launch_def Let_def split: option.splits)

lemma normalized_gmail:
  "strip (lower ''gmail'') = ''gmail''" "strip (lower ''Gmail'') = ''gmail''"
  "strip (lower ''GMAIL'') = ''gmail''"
  by code_simp+

lemma find_app_gmail:
  "installed_apps s = initialize_app_database \<Longrightarrow>
   find_app s ''gmail'' = Some \<lparr> name = ''Gmail'', package = ''com.google.android.gm'',
                                 category = COMMUNICATION, icon = ''gmail_icon'' \<rparr>"
  by (simp add: find_app_def initialize_app_database_def)

text \<open>
  Trimming, characterised on its own: of a text made of whitespace, a core and whitespace,
  where the core is empty or neither starts nor ends with whitespace, \<open>strip\<close> keeps
  exactly the core.
\<close>

lemma strip_core:
  assumes pre: "\<forall>c \<in> set pre. is_space c" and post: "\<forall>c \<in> set post. is_space c"
    and core: "core = [] \<or> (\<not> is_space (hd core) \<and> \<not> is_space (last core))"
  shows "strip (pre @ core @ post) = core"
proof (cases "core = []")
  case True
  have "\<forall>c \<in> set (pre @ post). is_space c"
    using pre post by auto
  then have d: "dropWhile is_space (pre @ post) = []"
    by (simp only: dropWhile_eq_Nil_conv)
  have "strip (pre @ post) = []"
    unfolding strip_def d by simp
  then show ?thesis using True by simp
next
  case False
  then have h: "\<not> is_space (hd core)" and l: "\<not> is_space (last core)"
    using core by simp_all
  have "dropWhile is_space (core @ post) = core @ post"
    using False h by (cases core) simp_all
  then have d1: "dropWhile is_space (pre @ core @ post) = core @ post"
    using pre by (simp add: dropWhile_append2)
  have "dropWhile is_space (rev core) = rev core"
    using False l by (cases "rev core") (simp_all add: last_rev [symmetric] hd_rev)
  moreover have "dropWhile is_space (rev post @ rev core) = dropWhile is_space (rev core)"
    by (rule dropWhile_append2) (use post in simp)
  ultimately have d2: "dropWhile is_space (rev post @ rev core) = rev core"
    by simp
  show ?thesis
    by (simp add: strip_def d1 d2)
qed

lemma normalized_padded_gmail:
  "strip (lower ([CHR 0x09] @ '' GMAIL  '' @ [CHR 0x0A])) = ''gmail''"
  by code_simp

text \<open>
  C6: \<open>launch\<close> normalizes its identifier by trimming and lower-casing (in either order;
  trimming removes exactly the surrounding whitespace) and resolves it by exact key, else
  by the first entry whose lower-cased display name equals it, else by the first entry
  whose key or lower-cased display name contains it; the launch succeeds exactly when this
  finds an entry, and reports that entry. The identifiers \<open>gmail\<close>, \<open>Gmail\<close> and \<open>GMAIL\<close>,
  also surrounded by whitespace, normalize to the one key \<open>gmail\<close>, which the catalogue
  resolves to its Gmail entry.
\<close>

theorem launch_resolution:
  "resolves_to (installed_apps s) (strip (lower ident)) (find_app s (strip (lower ident)))
   \<and> strip (lower ident) = lower (strip ident)
   \<and> ((\<forall>c \<in> set pre. is_space c) \<and> (\<forall>c \<in> set post. is_space c)
        \<and> (core = [] \<or> (\<not> is_space (hd core) \<and> \<not> is_space (last core))) \<longrightarrow>
          strip (pre @ core @ post) = core
          \<and> find_app s (strip (lower (pre @ core @ post))) = find_app s (lower core)
          \<and> snd (launch s (pre @ core @ post) params t1 t2) = snd (launch s core params t1 t2))
   \<and> map_of (fst (launch s ident params t1 t2)) ''success''
       = Some (PyBool (find_app s (strip (lower ident)) \<noteq> None))
   \<and> (\<forall>a. find_app s (strip (lower ident)) = Some a \<longrightarrow>
          map_of (fst (launch s ident params t1 t2)) ''app_name'' = Some (PyStr (name a))
          \<and> map_of (fst (launch s ident params t1 t2)) ''package'' = Some (PyStr (package a)))
   \<and> strip (lower ''gmail'') = ''gmail'' \<and> strip (lower ''Gmail'') = ''gmail''
   \<and> strip (lower ''GMAIL'') = ''gmail''
   \<and> strip (lower ([CHR 0x09] @ '' GMAIL  '' @ [CHR 0x0A])) = ''gmail''
   \<and> (installed_apps s = initialize_app_database \<longrightarrow>
        find_app s ''gmail'' = Some \<lparr> name = ''Gmail'', package = ''com.google.android.gm'',
                                      category = COMMUNICATION, icon = ''gmail_icon'' \<rparr>)"
proof -
  have trim: "strip (pre @ core @ post) = core
          \<and> find_app s (strip (lower (pre @ core @ post))) = find_app s (lower core)
          \<and> snd (launch s (pre @ core @ post) params t1 t2) = snd (launch s core params t1 t2)"
    if h: "\<forall>c \<in> set pre. is_space c" "\<forall>c \<in> set post. is_space c"
       "core = [] \<or> (\<not> is_space (hd core) \<and> \<not> is_space (last core))"
  proof -
    have c: "strip (pre @ core @ post) = core"
      using h by (rule strip_core)
    have c0: "strip core = core"
      using strip_core [of "[]" "[]" core] h(3) by simp
    have n: "strip (lower (pre @ core @ post)) = lower core" "strip (lower core) = lower core"
      by (simp_all only: strip_lower c c0)
    show ?thesis
      using c by (simp add: launch_def Let_def n split: option.splits)
  qed
  show ?thesis
    using find_app_resolves [of s "strip (lower ident)"] strip_lower [of ident] trim
      launch_success [of s ident params t1 t2] launch_found [of s ident _ params t1 t2]
      normalized_gmail normalized_padded_gmail find_app_gmail [of s]
    by blast
qed

theorem launch_resolution_witness:
  "find_app init_launcher (strip (lower ''Google Maps''))
     = Some \<lparr> name = ''Google Maps'', package = ''com.google.android.apps.maps'',
              category = NAVIGATION, icon = ''maps_icon'' \<rparr>
   \<and> resolves_to (installed_apps init_launcher) (strip (lower ''Google Maps''))
        (Some \<lparr> name = ''Google Maps'', package = ''com.google.android.apps.maps'',
                 category = NAVIGATION, icon = ''maps_icon'' \<rparr>)
   \<and> map_of (fst (launch init_launcher ''Google Maps'' None ''t1'' ''t2'')) ''app_name''
       = Some (PyStr ''Google Maps'')
   \<and> installed_apps init_launcher = initialize_app_database
   \<and> find_app init_launcher ''gmail''
       = Some \<lparr> name = ''Gmail'', package = ''com.google.android.gm'',
                category = COMMUNICATION, icon = ''gmail_icon'' \<rparr>
   \<and> strip (''  '' @ ''GMAIL'' @ '' '') = ''GMAIL''
   \<and> find_app init_launcher (lower (''  '' @ ''GMAIL'' @ '' '')) = None
   \<and> find_app init_launcher (strip (lower (''  '' @ ''GMAIL'' @ '' '')))
       = Some \<lparr> name = ''Gmail'', package = ''com.google.android.gm'',
                category = COMMUNICATION, icon = ''gmail_icon'' \<rparr>
   \<and> map_of (fst (launch init_launcher (''  '' @ ''GMAIL'' @ '' '') None ''t1'' ''t2''))
         ''app_name'' = Some (PyStr ''Gmail'')
   \<and> recent_apps (snd (launch init_launcher (''  '' @ ''GMAIL'' @ '' '') None ''t1'' ''t2''))
       = [''gmail'']"
proof -
  have f: "find_app init_launcher (strip (lower ''Google Maps''))
     = Some \<lparr> name = ''Google Maps'', package = ''com.google.android.apps.maps'',
              category = NAVIGATION, icon = ''maps_icon'' \<rparr>"
    by code_simp
  have i: "installed_apps init_launcher = initialize_app_database"
    by (simp add: init_launcher_def)
  have sp: "\<forall>c \<in> set ''  ''. is_space c" "\<forall>c \<in> set '' ''. is_space c"
    "''GMAIL'' = [] \<or> (\<not> is_space (hd ''GMAIL'') \<and> \<not> is_space (last ''GMAIL''))"
    by (simp_all add: is_space_def whitespace_def)
  have lg: "lower ''GMAIL'' = ''gmail''" by code_simp
  have un: "find_app init_launcher (lower (''  '' @ ''GMAIL'' @ '' '')) = None"
    by code_simp
  have rc: "recent_apps (snd (launch init_launcher ''GMAIL'' None ''t1'' ''t2'')) = [''gmail'']"
    by code_simp
  note t1 = launch_resolution [of init_launcher "''Google Maps''" "[]" "[]" "[]" None "''t1''" "''t2''"]
  note t2 = launch_resolution [of init_launcher "''  '' @ ''GMAIL'' @ '' ''" "''  ''" "'' ''"
      "''GMAIL''" None "''t1''" "''t2''"]
  have g: "find_app init_launcher ''gmail''
       = Some \<lparr> name = ''Gmail'', package = ''com.google.android.gm'',
                category = COMMUNICATION, icon = ''gmail_icon'' \<rparr>"
    using t1 i by blast
  have tr: "strip (''  '' @ ''GMAIL'' @ '' '') = ''GMAIL''"
    "find_app init_launcher (strip (lower (''  '' @ ''GMAIL'' @ '' '')))
       = find_app init_launcher (lower ''GMAIL'')"
    "snd (launch init_launcher (''  '' @ ''GMAIL'' @ '' '') None ''t1'' ''t2'')
       = snd (launch init_launcher ''GMAIL'' None ''t1'' ''t2'')"
    using t2 sp by blast+
  have fp: "find_app init_launcher (strip (lower (''  '' @ ''GMAIL'' @ '' '')))
       = Some \<lparr> name = ''Gmail'', package = ''com.google.android.gm'',
                category = COMMUNICATION, icon = ''gmail_icon'' \<rparr>"
    using tr(2) g by (simp only: lg)
  have an: "map_of (fst (launch init_launcher (''  '' @ ''GMAIL'' @ '' '') None ''t1'' ''t2''))
         ''app_name'' = Some (PyStr ''Gmail'')"
    using t2 fp by (simp del: append.simps)
  have m: "map_of (fst (launch init_launcher ''Google Maps'' None ''t1'' ''t2'')) ''app_name''
       = Some (PyStr ''Google Maps'')"
    "resolves_to (installed_apps init_launcher) (strip (lower ''Google Maps''))
        (Some \<lparr> name = ''Google Maps'', package = ''com.google.android.apps.maps'',
                 category = NAVIGATION, icon = ''maps_icon'' \<rparr>)"
    using t1 f by auto
  show ?thesis
    using f m i g tr(1) un fp an rc tr(3) by (simp only: simp_thms)
qed

section \<open>Suggestions for an unknown identifier\<close>

lemma calculate_similarity_jaccard: "calculate_similarity x y = jaccard x y"
  by (auto simp: calculate_similarity_def jaccard_def Let_def)

lemma similar_apps_loop_filter:
  "similar_apps_loop cat i acc = acc @ map (\<lambda>e. name (snd e)) (filter (is_similar i) cat)"
  by (induction cat i acc rule: similar_apps_loop.induct)
     (simp_all add: is_similar_def calculate_similarity_jaccard str_in_iff)

lemma get_similar_apps_filter:
  "get_similar_apps s i = take 5 (map (\<lambda>e. name (snd e)) (filter (is_similar i) (installed_apps s)))"
  by (simp add: get_similar_apps_def similar_apps_loop_filter)

text \<open>
  C7: when the normalized identifier resolves to no catalogue entry, \<open>launch\<close> returns a
  failure whose error text contains \<open>not found\<close> and whose suggestions are the display
  names of the first (at most five) catalogue entries, in iteration order, whose key or
  lower-cased display name contains the identifier or whose key has a Jaccard index above
  one half with it; the launcher is left as it was.
\<close>

theorem launch_not_found:
  "find_app s (strip (lower ident)) = None \<longrightarrow>
     map_of (fst (launch s ident params t1 t2)) ''success'' = Some (PyBool False)
     \<and> (\<exists>msg ps ss. map_of (fst (launch s ident params t1 t2)) ''error'' = Some (PyStr msg)
            \<and> msg = ps @ ''not found'' @ ss)
     \<and> (\<exists>sugg. map_of (fst (launch s ident params t1 t2)) ''suggestions''
                    = Some (PyList (map PyStr sugg))
            \<and> length sugg \<le> 5
            \<and> sugg = take 5 (map (\<lambda>e. name (snd e))
                         (filter (is_similar (strip (lower ident))) (installed_apps s))))
     \<and> snd (launch s ident params t1 t2) = s"
proof
  assume nf: "find_app s (strip (lower ident)) = None"
  let ?r = "fst (launch s ident params t1 t2)"
  have r: "?r = [(''success'', PyBool False),
            (''error'', PyStr (''App '' @ [CHR 0x27] @ ident @ [CHR 0x27] @ '' not found'')),
            (''suggestions'', PyList (map PyStr (get_similar_apps s (strip (lower ident)))))]"
    and st: "snd (launch s ident params t1 t2) = s"
    using nf by (simp_all add: launch_def Let_def)
  have msg: "''App '' @ [CHR 0x27] @ ident @ [CHR 0x27] @ '' not found''
               = (''App '' @ [CHR 0x27] @ ident @ [CHR 0x27] @ '' '') @ ''not found'' @ []"
    by simp
  have m: "map_of ?r ''error''
             = Some (PyStr (''App '' @ [CHR 0x27] @ ident @ [CHR 0x27] @ '' not found''))"
    unfolding r by simp
  have e: "\<exists>msg ps ss. map_of ?r ''error'' = Some (PyStr msg) \<and> msg = ps @ ''not found'' @ ss"
    using m msg by blast
  have g: "\<exists>sugg. map_of ?r ''suggestions'' = Some (PyList (map PyStr sugg))
            \<and> length sugg \<le> 5
            \<and> sugg = take 5 (map (\<lambda>e. name (snd e))
                         (filter (is_similar (strip (lower ident))) (installed_apps s)))"
    unfolding r by (simp add: get_similar_apps_filter)
  show "map_of ?r ''success'' = Some (PyBool False)
     \<and> (\<exists>msg ps ss. map_of ?r ''error'' = Some (PyStr msg) \<and> msg = ps @ ''not found'' @ ss)
     \<and> (\<exists>sugg. map_of ?r ''suggestions'' = Some (PyList (map PyStr sugg))
            \<and> length sugg \<le> 5
            \<and> sugg = take 5 (map (\<lambda>e. name (snd e))
                         (filter (is_similar (strip (lower ident))) (installed_apps s))))
     \<and> snd (launch s ident params t1 t2) = s"
    using e g st by (simp add: r)
qed

theorem launch_not_found_witness:
  "find_app init_launcher (strip (lower ''Spotfy'')) = None
   \<and> map_of (fst (launch init_launcher ''Spotfy'' None ''t1'' ''t2'')) ''success''
       = Some (PyBool False)
   \<and> map_of (fst (launch init_launcher ''Spotfy'' None ''t1'' ''t2'')) ''suggestions''
       = Some (PyList [PyStr ''Spotify''])
   \<and> jaccard ''spotfy'' ''spotify'' = 6 / 7
   \<and> snd (launch init_launcher ''Spotfy'' None ''t1'' ''t2'') = init_launcher"
proof -
  have f: "find_app init_launcher (strip (lower ''Spotfy'')) = None"
    by code_simp
  have g: "map_of (fst (launch init_launcher ''Spotfy'' None ''t1'' ''t2'')) ''suggestions''
       = Some (PyList [PyStr ''Spotify''])"
    by code_simp
  have j: "calculate_similarity ''spotfy'' ''spotify'' = 6 / 7"
    by code_simp
  show ?thesis
    using launch_not_found [of init_launcher "''Spotfy''" None "''t1''" "''t2''"] f g j
    by (simp add: calculate_similarity_jaccard)
qed

section \<open>An identifier that normalizes to the empty string\<close>

lemma str_in_empty: "str_in [] s"
  by (cases s) simp_all

lemma lower_eq_Nil: "lower s = [] \<longleftrightarrow> s = []"
  by (simp add: lower_def)

lemma find_app_empty:
  assumes "installed_apps s = (k, a) # rest"
    and "[] \<notin> fst ` set (installed_apps s)"
    and "\<forall>e \<in> set (installed_apps s). name (snd e) \<noteq> []"
  shows "find_app s [] = Some a"
proof -
  have "map_of (installed_apps s) [] = None"
    using assms(2) by (simp add: map_of_eq_None_iff)
  moreover have "find_by_display_name (installed_apps s) [] = None"
    using assms(3) by (simp add: find_by_display_name_None name_matches_def lower_eq_Nil)
  moreover have "find_partial (installed_apps s) [] = Some a"
    using assms(1) by (simp add: str_in_empty)
  ultimately show ?thesis by (simp add: find_app_def)
qed

lemma database_no_empty:
  "[] \<notin> fst ` set initialize_app_database"
  "\<forall>e \<in> set initialize_app_database. name (snd e) \<noteq> []"
  by (simp_all add: initialize_app_database_def)

text \<open>
  C10: an identifier that normalizes to the empty string never takes the not-found
  branch: on a catalogue that is not empty and has no empty key or display name, the
  substring step hits the first entry in iteration order, and \<open>launch\<close> succeeds with that
  entry; on the launcher's own catalogue that entry is Gmail.
\<close>

theorem launch_empty_identifier:
  "strip (lower ident) = [] \<longrightarrow>
     (installed_apps s = (k, a) # rest \<and> [] \<notin> fst ` set (installed_apps s)
        \<and> (\<forall>e \<in> set (installed_apps s). name (snd e) \<noteq> []) \<longrightarrow>
          find_app s (strip (lower ident)) = Some a
          \<and> map_of (fst (launch s ident params t1 t2)) ''success'' = Some (PyBool True)
          \<and> map_of (fst (launch s ident params t1 t2)) ''app_name'' = Some (PyStr (name a)))
     \<and> (installed_apps s = initialize_app_database \<longrightarrow>
          map_of (fst (launch s ident params t1 t2)) ''success'' = Some (PyBool True)
          \<and> map_of (fst (launch s ident params t1 t2)) ''app_name'' = Some (PyStr ''Gmail''))"
proof
  assume e: "strip (lower ident) = []"
  have gen: "find_app s (strip (lower ident)) = Some a
          \<and> map_of (fst (launch s ident params t1 t2)) ''success'' = Some (PyBool True)
          \<and> map_of (fst (launch s ident params t1 t2)) ''app_name'' = Some (PyStr (name a))"
    if "installed_apps s = (k, a) # rest" "[] \<notin> fst ` set (installed_apps s)"
       "\<forall>e \<in> set (installed_apps s). name (snd e) \<noteq> []" for k a rest
  proof -
    have f: "find_app s (strip (lower ident)) = Some a"
      unfolding e using that by (rule find_app_empty)
    show ?thesis
      using f launch_found(1) [OF f] by (simp add: launch_success)
  qed
  have db: "map_of (fst (launch s ident params t1 t2)) ''success'' = Some (PyBool True)
          \<and> map_of (fst (launch s ident params t1 t2)) ''app_name'' = Some (PyStr ''Gmail'')"
    if i: "installed_apps s = initialize_app_database"
    using gen [of "''gmail''" _ "tl initialize_app_database"] database_no_empty
    unfolding i by (simp add: initialize_app_database_def)
  show "(installed_apps s = (k, a) # rest \<and> [] \<notin> fst ` set (installed_apps s)
        \<and> (\<forall>e \<in> set (installed_apps s). name (snd e) \<noteq> []) \<longrightarrow>
          find_app s (strip (lower ident)) = Some a
          \<and> map_of (fst (launch s ident params t1 t2)) ''success'' = Some (PyBool True)
          \<and> map_of (fst (launch s ident params t1 t2)) ''app_name'' = Some (PyStr (name a)))
     \<and> (installed_apps s = initialize_app_database \<longrightarrow>
          map_of (fst (launch s ident params t1 t2)) ''success'' = Some (PyBool True)
          \<and> map_of (fst (launch s ident params t1 t2)) ''app_name'' = Some (PyStr ''Gmail''))"
    using gen db by blast
qed

theorem launch_empty_identifier_witness:
  "strip (lower ''   '') = []
   \<and> installed_apps init_launcher = initialize_app_database
   \<and> map_of (fst (launch init_launcher ''   '' None ''t1'' ''t2'')) ''success''
       = Some (PyBool True)
   \<and> map_of (fst (launch init_launcher ''   '' None ''t1'' ''t2'')) ''app_name''
       = Some (PyStr ''Gmail'')"
proof -
  have n: "strip (lower ''   '') = []" by code_simp
  have i: "installed_apps init_launcher = initialize_app_database"
    by (simp add: init_launcher_def)
  show ?thesis
    using launch_empty_identifier [of "''   ''" init_launcher _ _ _ None "''t1''" "''t2''"] n i
    by blast
qed

section \<open>Usage statistics, the recent list and the favorites\<close>

lemma map_of_update_usage_stats:
  "map_of (app_usage_stats (update_usage_stats s k now)) =
     (map_of (app_usage_stats s))(k \<mapsto>
        (case map_of (app_usage_stats s) k of
           None \<Rightarrow> \<lparr> launch_count = 1, last_used = Some now, total_time = 0 \<rparr>
         | Some st \<Rightarrow> st\<lparr> launch_count := launch_count st + 1, last_used := Some now \<rparr>))"
  by (auto simp: update_usage_stats_def Let_def map_of_dict_set split: option.splits)

lemma count_of_update_usage_stats:
  "count_of (update_usage_stats s k now) k' = (if k' = k then count_of s k + 1 else count_of s k')"
  by (simp add: count_of_def map_of_update_usage_stats split: option.splits)

lemma update_usage_stats_frame:
  "installed_apps (update_usage_stats s k now) = installed_apps s"
  "recent_apps (update_usage_stats s k now) = recent_apps s"
  "favorites (update_usage_stats s k now) = favorites s"
  by (simp_all add: update_usage_stats_def Let_def split: option.splits)

lemma add_to_recent_recent:
  "recent_apps (add_to_recent s k) = take 20 (k # remove1 k (recent_apps s))"
  by (simp add: add_to_recent_def Let_def remove1_idem)

lemma add_to_recent_frame:
  "installed_apps (add_to_recent s k) = installed_apps s"
  "app_usage_stats (add_to_recent s k) = app_usage_stats s"
  "favorites (add_to_recent s k) = favorites s"
  by (simp_all add: add_to_recent_def Let_def)

lemma count_of_add_to_recent: "count_of (add_to_recent s k) k' = count_of s k'"
  by (simp add: count_of_def add_to_recent_frame)

lemma snd_launch:
  "snd (launch s ident params t1 t2) =
     (case find_app s (strip (lower ident)) of
        None \<Rightarrow> s
      | Some a \<Rightarrow> add_to_recent (update_usage_stats s (strip (lower ident)) t1)
                    (strip (lower ident)))"
  by (simp add: launch_def Let_def split: option.splits)

lemma find_app_exact_key:
  "k \<in> fst ` set (installed_apps s) \<Longrightarrow> \<exists>a. find_app s k = Some a"
  by (cases "map_of (installed_apps s) k") (auto simp: find_app_def map_of_eq_None_iff)

lemma launch_frame:
  "installed_apps (snd (launch s ident params t1 t2)) = installed_apps s"
  "favorites (snd (launch s ident params t1 t2)) = favorites s"
  by (simp_all add: snd_launch add_to_recent_frame update_usage_stats_frame split: option.splits)

lemma launch_recent_inv:
  assumes "length (recent_apps s) \<le> 20" "distinct (recent_apps s)"
  shows "length (recent_apps (snd (launch s ident params t1 t2))) \<le> 20"
    and "distinct (recent_apps (snd (launch s ident params t1 t2)))"
  using assms
  by (auto simp: snd_launch add_to_recent_recent update_usage_stats_frame
      split: option.splits dest: in_set_takeD)

lemma launch_count_mono: "count_of s k \<le> count_of (snd (launch s ident params t1 t2)) k"
  by (simp add: snd_launch count_of_add_to_recent count_of_update_usage_stats
      split: option.splits)

lemma add_to_favorites_frame:
  "installed_apps (snd (add_to_favorites s ident)) = installed_apps s"
  "recent_apps (snd (add_to_favorites s ident)) = recent_apps s"
  "app_usage_stats (snd (add_to_favorites s ident)) = app_usage_stats s"
  by (simp_all add: add_to_favorites_def Let_def split: option.splits)

lemma apply_op_cases:
  "apply_op s op = s
   \<or> (\<exists>ident. apply_op s op = snd (add_to_favorites s ident))
   \<or> (\<exists>ident params t1 t2. apply_op s op = snd (launch s ident params t1 t2))"
proof (cases op)
  case (Launch ident params t1 t2)
  then have "apply_op s op = snd (launch s ident params t1 t2)" by simp
  then show ?thesis by blast
next
  case (AddToFavorites ident)
  then have "apply_op s op = snd (add_to_favorites s ident)" by simp
  then show ?thesis by blast
next
  case (SwitchToRecent index t1 t2)
  then have "apply_op s op = s
     \<or> (\<exists>ident. apply_op s op = snd (launch s ident None t1 t2))"
    by (auto simp: switch_to_recent_def Let_def)
  then show ?thesis by blast
qed

lemma apply_op_inv:
  assumes "length (recent_apps s) \<le> 20" "distinct (recent_apps s)"
  shows "length (recent_apps (apply_op s op)) \<le> 20 \<and> distinct (recent_apps (apply_op s op))"
  using apply_op_cases [of s op] assms launch_recent_inv [OF assms]
  by (auto simp: add_to_favorites_frame)

lemma apply_op_installed: "installed_apps (apply_op s op) = installed_apps s"
  using apply_op_cases [of s op] by (auto simp: add_to_favorites_frame launch_frame)

lemma apply_op_count_mono: "count_of s k \<le> count_of (apply_op s op) k"
  using apply_op_cases [of s op] launch_count_mono [of s k]
  by (auto simp: count_of_def add_to_favorites_frame)

lemma run_ops_inv:
  "length (recent_apps s) \<le> 20 \<Longrightarrow> distinct (recent_apps s) \<Longrightarrow>
   length (recent_apps (run_ops s ops)) \<le> 20 \<and> distinct (recent_apps (run_ops s ops))"
  by (induction s ops rule: run_ops.induct) (simp_all add: apply_op_inv)

lemma run_ops_installed: "installed_apps (run_ops s ops) = installed_apps s"
  by (induction s ops rule: run_ops.induct) (simp_all add: apply_op_installed)

lemma run_ops_count_mono: "count_of s k \<le> count_of (run_ops s ops) k"
proof (induction s ops rule: run_ops.induct)
  case (1 s)
  then show ?case by simp
next
  case (2 s op ops)
  then show ?case
    using apply_op_count_mono [of s k op] by simp
qed

text \<open>
  After any session from the initial state the recent list has at most 20 entries and no
  duplicate, the catalogue is the built-in one, and no operation or session lowers the
  launch count recorded for a key.
\<close>

theorem launcher_invariants:
  "length (recent_apps (run_ops init_launcher ops)) \<le> 20
   \<and> distinct (recent_apps (run_ops init_launcher ops))
   \<and> installed_apps (run_ops init_launcher ops) = initialize_app_database
   \<and> count_of s k \<le> count_of (apply_op s op) k
   \<and> count_of s k \<le> count_of (run_ops s ops) k"
  using run_ops_inv [of init_launcher ops] run_ops_installed [of init_launcher ops]
    apply_op_count_mono [of s k op] run_ops_count_mono [of s k ops]
  by (simp add: init_launcher_def)

theorem launcher_invariants_witness:
  "recent_apps (run_ops init_launcher
     [Launch ''gmail'' None ''t1'' ''t2'', Launch ''Camera'' None ''t3'' ''t4'',
      AddToFavorites ''gmail'', SwitchToRecent 1 ''t5'' ''t6''])
     = [''gmail'', ''camera'']
   \<and> distinct (recent_apps (run_ops init_launcher
     [Launch ''gmail'' None ''t1'' ''t2'', Launch ''Camera'' None ''t3'' ''t4'',
      AddToFavorites ''gmail'', SwitchToRecent 1 ''t5'' ''t6'']))
   \<and> count_of (run_ops init_launcher
     [Launch ''gmail'' None ''t1'' ''t2'', Launch ''Camera'' None ''t3'' ''t4'',
      AddToFavorites ''gmail'', SwitchToRecent 1 ''t5'' ''t6'']) ''gmail'' = 2"
proof -
  have r: "recent_apps (run_ops init_launcher
     [Launch ''gmail'' None ''t1'' ''t2'', Launch ''Camera'' None ''t3'' ''t4'',
      AddToFavorites ''gmail'', SwitchToRecent 1 ''t5'' ''t6''])
     = [''gmail'', ''camera'']"
    by code_simp
  have c: "count_of (run_ops init_launcher
     [Launch ''gmail'' None ''t1'' ''t2'', Launch ''Camera'' None ''t3'' ''t4'',
      AddToFavorites ''gmail'', SwitchToRecent 1 ''t5'' ''t6'']) ''gmail'' = 2"
    by code_simp
  show ?thesis
    using launcher_invariants [of "[Launch ''gmail'' None ''t1'' ''t2'',
      Launch ''Camera'' None ''t3'' ''t4'', AddToFavorites ''gmail'',
      SwitchToRecent 1 ''t5'' ''t6'']"] r c
    by (simp del: run_ops.simps)
qed

lemma exact_key_launch_step:
  assumes "strip (lower ident) = k" "k \<in> fst ` set (installed_apps s)"
  shows "count_of (snd (launch s ident params t1 t2)) k = count_of s k + 1"
    and "map_option last_used (map_of (app_usage_stats (snd (launch s ident params t1 t2))) k)
           = Some (Some t1)"
    and "recent_apps (snd (launch s ident params t1 t2)) = take 20 (k # remove1 k (recent_apps s))"
proof -
  obtain a where f: "find_app s (strip (lower ident)) = Some a"
    using find_app_exact_key [OF assms(2)] assms(1) by auto
  have st: "snd (launch s ident params t1 t2) = add_to_recent (update_usage_stats s k t1) k"
    using f assms(1) by (simp add: snd_launch)
  show "count_of (snd (launch s ident params t1 t2)) k = count_of s k + 1"
    by (simp add: st count_of_add_to_recent count_of_update_usage_stats)
  show "map_option last_used (map_of (app_usage_stats (snd (launch s ident params t1 t2))) k)
           = Some (Some t1)"
    by (simp add: st add_to_recent_frame map_of_update_usage_stats split: option.splits)
  show "recent_apps (snd (launch s ident params t1 t2)) = take 20 (k # remove1 k (recent_apps s))"
    by (simp add: st add_to_recent_recent update_usage_stats_frame)
qed

lemma exact_key_launches:
  assumes "k \<in> fst ` set (installed_apps s)"
    and "\<forall>op \<in> set ops. \<exists>ident params t1 t2. op = Launch ident params t1 t2 \<and> strip (lower ident) = k"
  shows "count_of (run_ops s ops) k = count_of s k + length ops"
  using assms
proof (induction s ops rule: run_ops.induct)
  case (1 s)
  then show ?case by simp
next
  case (2 s op ops)
  obtain ident params t1 t2 where op: "op = Launch ident params t1 t2" "strip (lower ident) = k"
    using "2.prems"(2) by auto
  have "count_of (apply_op s op) k = count_of s k + 1"
    using exact_key_launch_step(1) [OF op(2) "2.prems"(1)] op(1) by simp
  moreover have "count_of (run_ops (apply_op s op) ops) k = count_of (apply_op s op) k + length ops"
    using "2.IH" "2.prems" by (simp add: apply_op_installed)
  ultimately show ?case by simp
qed

text \<open>
  A launch whose normalized identifier is itself a catalogue key \<open>k\<close> adds one to the launch
  count recorded for \<open>k\<close> (creating the record if absent), stamps its last use, and moves
  \<open>k\<close> to the front of the recent list, without a second copy and within 20 entries; a
  session of \<open>N\<close> such launches adds \<open>N\<close> to the count.
\<close>

theorem exact_key_launch_stats:
  "(strip (lower ident) = k \<and> k \<in> fst ` set (installed_apps s) \<longrightarrow>
      count_of (snd (launch s ident params t1 t2)) k = count_of s k + 1
      \<and> map_option last_used (map_of (app_usage_stats (snd (launch s ident params t1 t2))) k)
          = Some (Some t1)
      \<and> recent_apps (snd (launch s ident params t1 t2))
          = take 20 (k # remove1 k (recent_apps s)))
   \<and> (k \<in> fst ` set (installed_apps s)
        \<and> (\<forall>op \<in> set ops. \<exists>ident params t1 t2.
               op = Launch ident params t1 t2 \<and> strip (lower ident) = k) \<longrightarrow>
        count_of (run_ops s ops) k = count_of s k + length ops)"
  using exact_key_launch_step [of ident k s params t1 t2] exact_key_launches [of k s ops]
  by blast

theorem exact_key_launch_stats_witness:
  "strip (lower '' Gmail '') = ''gmail''
   \<and> count_of (snd (launch init_launcher '' Gmail '' None ''t1'' ''t2'')) ''gmail'' = 1
   \<and> recent_apps (snd (launch init_launcher '' Gmail '' None ''t1'' ''t2'')) = [''gmail'']
   \<and> count_of (run_ops init_launcher
         [Launch ''gmail'' None ''t1'' ''t2'', Launch ''GMAIL'' None ''t3'' ''t4'']) ''gmail'' = 2"
proof -
  have n: "strip (lower '' Gmail '') = ''gmail''" "strip (lower ''gmail'') = ''gmail''"
    "strip (lower ''GMAIL'') = ''gmail''"
    by code_simp+
  have k: "''gmail'' \<in> fst ` set (installed_apps init_launcher)"
    by (simp add: init_launcher_def initialize_app_database_def)
  have c: "count_of init_launcher ''gmail'' = 0" "recent_apps init_launcher = []"
    by (simp_all add: count_of_def init_launcher_def)
  have o: "\<forall>op \<in> set [Launch ''gmail'' None ''t1'' ''t2'', Launch ''GMAIL'' None ''t3'' ''t4''].
             \<exists>ident params t1 t2. op = Launch ident params t1 t2 \<and> strip (lower ident) = ''gmail''"
    using n by simp
  show ?thesis
    using exact_key_launch_stats [of "'' Gmail ''" "''gmail''" init_launcher None "''t1''" "''t2''"
        "[Launch ''gmail'' None ''t1'' ''t2'', Launch ''GMAIL'' None ''t3'' ''t4'']"] n k c o
    by (simp del: run_ops.simps)
qed

text \<open>
  C3 (the code departs from the claim): a launch by display name succeeds and resolves to
  the catalogue entry with key \<open>maps\<close>, yet the statistics and the recent list are keyed by
  the normalized identifier \<open>google maps\<close>: nothing is recorded for \<open>maps\<close>, and the
  projection of the recent list shows no app.
\<close>

theorem launch_by_display_name_stats:
  "map_of (fst (launch init_launcher ''Google Maps'' None ''t1'' ''t2'')) ''success''
     = Some (PyBool True)
   \<and> map_of (fst (launch init_launcher ''Google Maps'' None ''t1'' ''t2'')) ''package''
       = Some (PyStr ''com.google.android.apps.maps'')
   \<and> map_of initialize_app_database ''maps''
       = Some \<lparr> name = ''Google Maps'', package = ''com.google.android.apps.maps'',
                category = NAVIGATION, icon = ''maps_icon'' \<rparr>
   \<and> map_of (app_usage_stats (snd (launch init_launcher ''Google Maps'' None ''t1'' ''t2''))) ''maps''
       = None
   \<and> count_of (snd (launch init_launcher ''Google Maps'' None ''t1'' ''t2'')) ''maps'' = 0
   \<and> count_of (snd (launch init_launcher ''Google Maps'' None ''t1'' ''t2'')) ''google maps'' = 1
   \<and> recent_apps (snd (launch init_launcher ''Google Maps'' None ''t1'' ''t2''))
       = [''google maps'']
   \<and> get_recent_apps (snd (launch init_launcher ''Google Maps'' None ''t1'' ''t2'')) = []"
  by code_simp

text \<open>
  C4 (the code departs from the claim): \<open>add_to_favorites\<close> accepts an identifier that only
  the display-name step resolves and stores the identifier itself, which is no catalogue
  key; \<open>get_favorites\<close> then shows no favorite.
\<close>

theorem favorites_not_catalogue_key:
  "fst (add_to_favorites init_launcher ''Google Maps'') = True
   \<and> favorites (snd (add_to_favorites init_launcher ''Google Maps'')) = [''google maps'']
   \<and> map_of (installed_apps (snd (add_to_favorites init_launcher ''Google Maps''))) ''google maps''
       = None
   \<and> get_favorites (snd (add_to_favorites init_launcher ''Google Maps'')) = []"
  by code_simp

section \<open>Adding a favorite\<close>

lemma add_to_favorites_result:
  "fst (add_to_favorites s ident)
     = (find_app s (strip (lower ident)) \<noteq> None \<and> strip (lower ident) \<notin> set (favorites s))"
  by (simp add: add_to_favorites_def Let_def split: option.splits)

lemma add_to_favorites_state:
  "snd (add_to_favorites s ident)
     = (if fst (add_to_favorites s ident)
        then s\<lparr> favorites := favorites s @ [strip (lower ident)] \<rparr> else s)"
  by (simp add: add_to_favorites_def Let_def split: option.splits)

lemma add_valid_key_twice:
  assumes "strip (lower ident) \<in> fst ` set (installed_apps s)"
    and "strip (lower ident) \<notin> set (favorites s)"
  shows "fst (add_to_favorites s ident)"
    and "favorites (snd (add_to_favorites s ident)) = favorites s @ [strip (lower ident)]"
    and "\<not> fst (add_to_favorites (snd (add_to_favorites s ident)) ident)"
    and "favorites (snd (add_to_favorites (snd (add_to_favorites s ident)) ident))
           = favorites s @ [strip (lower ident)]"
proof -
  obtain a where f: "find_app s (strip (lower ident)) = Some a"
    using find_app_exact_key [OF assms(1)] by auto
  show 1: "fst (add_to_favorites s ident)"
    using f assms(2) by (simp add: add_to_favorites_result)
  show 2: "favorites (snd (add_to_favorites s ident)) = favorites s @ [strip (lower ident)]"
    using 1 by (simp add: add_to_favorites_state)
  show 3: "\<not> fst (add_to_favorites (snd (add_to_favorites s ident)) ident)"
    using 2 by (simp add: add_to_favorites_result)
  show "favorites (snd (add_to_favorites (snd (add_to_favorites s ident)) ident))
           = favorites s @ [strip (lower ident)]"
    using 2 3 add_to_favorites_state [of "snd (add_to_favorites s ident)" ident] by simp
qed

text \<open>
  C8 (the code departs from the claim): \<open>gma\<close> is no catalogue key, yet \<open>add_to_favorites\<close>
  resolves it by the substring step, returns true and stores \<open>gma\<close> itself as a favorite;
  \<open>get_favorites\<close> then shows no favorite.
\<close>

theorem add_to_favorites_unknown_key:
  "strip (lower ''gma'') = ''gma''
   \<and> map_of (installed_apps init_launcher) ''gma'' = None
   \<and> fst (add_to_favorites init_launcher ''gma'') = True
   \<and> favorites (snd (add_to_favorites init_launcher ''gma'')) = [''gma'']
   \<and> get_favorites (snd (add_to_favorites init_launcher ''gma'')) = []"
  by code_simp

text \<open>
  Where the identifier is no fuzzy match, \<open>add_to_favorites\<close> does what is asked of it: it
  returns false and changes nothing when the normalized identifier resolves to no
  catalogue entry at all or is already a favorite; and when the normalized identifier is
  a catalogue key that is not yet a favorite, the first call appends the key and returns
  true, and a second call returns false and appends nothing, so from an empty favorites
  list the list has length 1.
\<close>

theorem add_to_favorites_exact_key:
  "(find_app s (strip (lower ident)) = None \<or> strip (lower ident) \<in> set (favorites s) \<longrightarrow>
      \<not> fst (add_to_favorites s ident) \<and> snd (add_to_favorites s ident) = s)
   \<and> (strip (lower ident) \<in> fst ` set (installed_apps s)
        \<and> strip (lower ident) \<notin> set (favorites s) \<longrightarrow>
          fst (add_to_favorites s ident)
          \<and> snd (add_to_favorites s ident)
              = s\<lparr> favorites := favorites s @ [strip (lower ident)] \<rparr>
          \<and> \<not> fst (add_to_favorites (snd (add_to_favorites s ident)) ident)
          \<and> snd (add_to_favorites (snd (add_to_favorites s ident)) ident)
              = s\<lparr> favorites := favorites s @ [strip (lower ident)] \<rparr>
          \<and> (favorites s = [] \<longrightarrow>
                length (favorites (snd (add_to_favorites (snd (add_to_favorites s ident)) ident)))
                  = 1))"
proof -
  have r: "(find_app s (strip (lower ident)) = None \<or> strip (lower ident) \<in> set (favorites s))
             = (\<not> fst (add_to_favorites s ident))"
    by (auto simp: add_to_favorites_result)
  have st: "snd (add_to_favorites s ident) = s" if "\<not> fst (add_to_favorites s ident)"
    using that by (simp add: add_to_favorites_state)
  have tw: "fst (add_to_favorites s ident)
          \<and> snd (add_to_favorites s ident)
              = s\<lparr> favorites := favorites s @ [strip (lower ident)] \<rparr>
          \<and> \<not> fst (add_to_favorites (snd (add_to_favorites s ident)) ident)
          \<and> snd (add_to_favorites (snd (add_to_favorites s ident)) ident)
              = s\<lparr> favorites := favorites s @ [strip (lower ident)] \<rparr>
          \<and> (favorites s = [] \<longrightarrow>
                length (favorites (snd (add_to_favorites (snd (add_to_favorites s ident)) ident)))
                  = 1)"
    if k: "strip (lower ident) \<in> fst ` set (installed_apps s)"
       "strip (lower ident) \<notin> set (favorites s)"
  proof -
    note a = add_valid_key_twice [OF k]
    have 1: "snd (add_to_favorites s ident)
               = s\<lparr> favorites := favorites s @ [strip (lower ident)] \<rparr>"
      using a(1) by (simp add: add_to_favorites_state)
    have 2: "snd (add_to_favorites (snd (add_to_favorites s ident)) ident)
               = snd (add_to_favorites s ident)"
      using a(3) add_to_favorites_state [of "snd (add_to_favorites s ident)" ident] by simp
    have 3: "snd (add_to_favorites (snd (add_to_favorites s ident)) ident)
               = s\<lparr> favorites := favorites s @ [strip (lower ident)] \<rparr>"
      using 2 1 by (rule trans)
    have 4: "favorites s = [] \<longrightarrow>
               length (favorites (snd (add_to_favorites (snd (add_to_favorites s ident)) ident)))
                 = 1"
      using a(4) by simp
    show ?thesis
      using a(1) 1 a(3) 3 4 by blast
  qed
  show ?thesis
    using r st tw by blast
qed

theorem add_to_favorites_exact_key_witness:
  "strip (lower '' Gmail'') \<in> fst ` set (installed_apps init_launcher)
   \<and> fst (add_to_favorites init_launcher '' Gmail'')
   \<and> \<not> fst (add_to_favorites (snd (add_to_favorites init_launcher '' Gmail'')) '' Gmail'')
   \<and> favorites (snd (add_to_favorites (snd (add_to_favorites init_launcher '' Gmail'')) '' Gmail''))
       = [''gmail'']
   \<and> find_app init_launcher (strip (lower ''xyz123'')) = None
   \<and> \<not> fst (add_to_favorites init_launcher ''xyz123'')
   \<and> snd (add_to_favorites init_launcher ''xyz123'') = init_launcher"
proof -
  have n: "strip (lower '' Gmail'') = ''gmail''" by code_simp
  have k: "''gmail'' \<in> fst ` set (installed_apps init_launcher)"
    "favorites init_launcher = []"
    by (simp_all add: init_launcher_def initialize_app_database_def)
  have x: "find_app init_launcher (strip (lower ''xyz123'')) = None" by code_simp
  have nf: "''gmail'' \<notin> set (favorites init_launcher)"
    by (simp add: k(2))
  note t1 = add_to_favorites_exact_key [of init_launcher "'' Gmail''", unfolded n]
  note t2 = add_to_favorites_exact_key [of init_launcher "''xyz123''"]
  have a: "fst (add_to_favorites init_launcher '' Gmail'')"
    "\<not> fst (add_to_favorites (snd (add_to_favorites init_launcher '' Gmail'')) '' Gmail'')"
    "snd (add_to_favorites (snd (add_to_favorites init_launcher '' Gmail'')) '' Gmail'')
       = init_launcher\<lparr> favorites := favorites init_launcher @ [''gmail''] \<rparr>"
    using t1 k(1) nf by blast+
  have f: "favorites (snd (add_to_favorites (snd (add_to_favorites init_launcher '' Gmail''))
             '' Gmail'')) = [''gmail'']"
    unfolding a(3) by (simp add: k(2))
  have b: "\<not> fst (add_to_favorites init_launcher ''xyz123'')"
    "snd (add_to_favorites init_launcher ''xyz123'') = init_launcher"
    using t2 x by blast+
  show ?thesis
    unfolding n using a(1,2) f b k(1) x by blast
qed

end
